theory Spec2Isabelle
  imports Main
begin

text \<open>
  A model of the editor host component \<open>EnhancedMonacoEditor\<close> and of the language
  detection of the editor and of the toolbar. The component is a React function
  component: its state lives in refs and in one state object, its operations are effects,
  cleanups and callbacks, and the framework decides when they run. The model has a state
  record for the refs, the state object, the objects of the editing library that the
  component created, the pending timeouts, the clock, the calls made to the two
  external collaborators (the persist operation and the error channel), and the
  rejections of promises that nobody handles.

  Assumptions of the model. The event loop runs one callback at a time. A call of the
  persist operation is recorded when it is made and settles at once. The library calls
  that the source wraps in \<open>try\<close> (\<open>dispose\<close>, \<open>createModel\<close>, \<open>setModel\<close>,
  \<open>focus\<close>) and the persist operation may fail, as an environment given to each
  operation decides; the other library calls return. What the editing library throws is
  an \<open>Error\<close>, given by its message. The persist operation is a function of the
  surrounding application, and what it rejects with is any JavaScript value. What the
  component draws on the screen is not part of the model.
\<close>

section \<open>JavaScript strings and property lookup\<close>

text \<open>
  Strings are byte strings over ASCII. \<open>toLowerCase\<close> maps the 26 upper-case ASCII
  letters to their lower-case forms and leaves every other character alone.
\<close>

definition upper_letters :: string where
  "upper_letters = ''ABCDEFGHIJKLMNOPQRSTUVWXYZ''"

definition lower_letters :: string where
  "lower_letters = ''abcdefghijklmnopqrstuvwxyz''"

definition toLowerCase_char :: "char \<Rightarrow> char" where
  "toLowerCase_char c =
     (case map_of (zip upper_letters lower_letters) c of Some l \<Rightarrow> l | None \<Rightarrow> c)"

definition toLowerCase :: "string \<Rightarrow> string" where
  "toLowerCase s = map toLowerCase_char s"

text \<open>\<open>s.split('.')\<close>: the segments between dots; never the empty array.\<close>

fun split_dot :: "string \<Rightarrow> string list" where
  "split_dot [] = [[]]"
| "split_dot (c # cs) =
     (if c = CHR ''.'' then [] # split_dot cs
      else (case split_dot cs of [] \<Rightarrow> [[c]] | w # ws \<Rightarrow> (c # w) # ws))"

text \<open>\<open>xs.pop()\<close>: the last element, \<open>undefined\<close> on the empty array.\<close>

definition pop :: "string list \<Rightarrow> string option" where
  "pop xs = (if xs = [] then None else Some (last xs))"

text \<open>
  A value read out of an object literal is either one of its own string values or a
  property inherited from \<open>Object.prototype\<close> (a function or an object, never a
  string, always truthy).
\<close>

datatype js_value = JStr string | JInherited string

definition object_prototype_keys :: "string list" where
  "object_prototype_keys =
     [''constructor'', ''__proto__'', ''hasOwnProperty'', ''isPrototypeOf'',
      ''propertyIsEnumerable'', ''toLocaleString'', ''toString'', ''valueOf'',
      ''__defineGetter__'', ''__defineSetter__'', ''__lookupGetter__'',
      ''__lookupSetter__'']"

text \<open>\<open>obj[key]\<close> on an object literal: own properties first, then the prototype.\<close>

definition js_get :: "(string \<times> string) list \<Rightarrow> string \<Rightarrow> js_value option" where
  "js_get obj key =
     (case map_of obj key of
        Some v \<Rightarrow> Some (JStr v)
      | None \<Rightarrow> if key \<in> set object_prototype_keys then Some (JInherited key) else None)"

text \<open>\<open>v || d\<close>: \<open>undefined\<close> and the empty string are falsy.\<close>

definition js_or :: "js_value option \<Rightarrow> string \<Rightarrow> js_value" where
  "js_or v d = (case v of None \<Rightarrow> JStr d | Some (JStr []) \<Rightarrow> JStr d | Some x \<Rightarrow> x)"

text \<open>A property key is a string; \<open>undefined\<close> used as a key is the string "undefined".\<close>

definition property_key :: "string option \<Rightarrow> string" where
  "property_key k = (case k of None \<Rightarrow> ''undefined'' | Some s \<Rightarrow> s)"

section \<open>Language detection in the editor\<close>

definition languageMap :: "(string \<times> string) list" where
  "languageMap =
     [(''js'', ''javascript''), (''jsx'', ''javascript''),
      (''ts'', ''typescript''), (''tsx'', ''typescript''),
      (''py'', ''python''),
      (''html'', ''html''), (''htm'', ''html''),
      (''css'', ''css''), (''scss'', ''scss''), (''sass'', ''sass''),
      (''json'', ''json''), (''md'', ''markdown''), (''txt'', ''plaintext''),
      (''xml'', ''xml''), (''yml'', ''yaml''), (''yaml'', ''yaml''),
      (''sh'', ''shell''), (''bash'', ''shell''),
      (''sql'', ''sql''), (''php'', ''php''), (''java'', ''java''),
      (''cpp'', ''cpp''), (''c'', ''c''), (''cs'', ''csharp''),
      (''go'', ''go''), (''rs'', ''rust''), (''rb'', ''ruby'')]"

text \<open>\<open>filename?.split('.').pop()?.toLowerCase()\<close>\<close>

definition extension_of :: "string option \<Rightarrow> string option" where
  "extension_of filename =
     (case filename of
        None \<Rightarrow> None
      | Some n \<Rightarrow> (case pop (split_dot n) of None \<Rightarrow> None | Some e \<Rightarrow> Some (toLowerCase e)))"

definition getLanguageFromExtension :: "string option \<Rightarrow> js_value" where
  "getLanguageFromExtension filename =
     js_or (js_get languageMap (property_key (extension_of filename))) ''plaintext''"

section \<open>Language detection in the toolbar\<close>

record toolbar_file =
  tf_name :: "string option"

definition toolbarLanguageMap :: "(string \<times> string) list" where
  "toolbarLanguageMap =
     [(''js'', ''javascript''), (''jsx'', ''javascript''), (''mjs'', ''javascript''),
      (''ts'', ''typescript''), (''tsx'', ''typescript''),
      (''py'', ''python''), (''pyx'', ''python''), (''pyi'', ''python''),
      (''java'', ''java''), (''class'', ''java''),
      (''c'', ''c''), (''h'', ''c''),
      (''cpp'', ''cpp''), (''cc'', ''cpp''), (''cxx'', ''cpp''),
      (''cs'', ''csharp''),
      (''go'', ''go''),
      (''rs'', ''rust''),
      (''rb'', ''ruby''),
      (''php'', ''php''),
      (''pl'', ''perl''),
      (''lua'', ''lua''),
      (''swift'', ''swift''),
      (''kt'', ''kotlin''), (''kts'', ''kotlin''),
      (''scala'', ''scala''), (''sc'', ''scala''),
      (''r'', ''r''), (''R'', ''r''),
      (''ex'', ''elixir''), (''exs'', ''elixir''),
      (''erl'', ''erlang''),
      (''hs'', ''haskell''), (''lhs'', ''haskell''),
      (''dart'', ''dart''),
      (''groovy'', ''groovy''),
      (''sh'', ''bash''), (''bash'', ''bash''),
      (''html'', ''html''), (''htm'', ''html''),
      (''css'', ''css''),
      (''svg'', ''svg''),
      (''xml'', ''xml'')]"

text \<open>
  \<open>!file?.name\<close> holds for a null file, a file without a name and a file whose name is
  the empty string.
\<close>

definition getLanguageFromFile :: "toolbar_file option \<Rightarrow> js_value" where
  "getLanguageFromFile file =
     (case file of
        None \<Rightarrow> JStr ''javascript''
      | Some f \<Rightarrow>
          (case tf_name f of
             None \<Rightarrow> JStr ''javascript''
           | Some n \<Rightarrow>
               if n = [] then JStr ''javascript''
               else js_or (js_get toolbarLanguageMap (property_key (extension_of (Some n))))
                      ''javascript''))"

section \<open>The editor host: data\<close>

text \<open>
  The current file comes from the project context. \<open>f_obj\<close> is the identity of the
  JavaScript object: React compares hook dependencies with \<open>Object.is\<close>, so two file
  objects are the same dependency only if they are the same object. \<open>f_name\<close> is
  \<open>metadata?.name\<close>; \<open>f_content\<close> may be missing (\<open>content || ''\<close>).
\<close>

record current_file =
  f_obj :: nat
  f_id :: string
  f_name :: "string option"
  f_content :: "string option"

record props =
  p_theme :: string
  p_fontSize :: nat
  p_autoSave :: bool
  p_autoSaveDelay :: nat
  p_currentFile :: "current_file option"

text \<open>
  The callbacks \<open>handleSave\<close> and \<open>debouncedSave\<close> and the content-change listener are
  closures over the props of the render that created them; a closure is represented by
  these props.
\<close>

record timer =
  t_id :: nat
  t_due :: nat
  t_content :: string
  t_closure :: props

text \<open>
  The editing library, as far as the component observes it. An editor created with
  \<open>value: ''\<close> shows a buffer of its own until \<open>setModel\<close> attaches a model; when an
  attached model is disposed the editor is left without a model, where \<open>getValue\<close> is the
  empty string and \<open>setValue\<close> does nothing.
\<close>

datatype attachment = OwnBuffer string | Attached nat | Detached

record text_model =
  tm_value :: string
  tm_language :: js_value
  tm_disposed :: bool

record editor =
  ed_attachment :: attachment
  ed_fontSize :: nat
  ed_disposed :: bool
  ed_listener :: "props option"
  ed_command :: "props option"

text \<open>What can be disposed: an editor, a model, or the registration of a listener.\<close>

datatype resource = EditorRes nat | ModelRes nat | ListenerRes nat

text \<open>
  The state of one mounted component. The refs and the three parts of \<open>editorState\<close>
  are the source's. \<open>props\<close> are the props of the last render, \<open>initCleanup\<close> is the
  cleanup that the creating effect returned when it last ran (the editor it closes
  over), \<open>editors\<close> and \<open>models\<close> are the library objects created so far, addressed by
  their position, \<open>monacoTheme\<close> is the library's global theme, \<open>timers\<close> are the
  pending timeouts, \<open>persistCalls\<close> are the calls of the persist operation (time, file
  identifier, content), \<open>errorChannel\<close> the messages given to \<open>setError\<close>, and
  \<open>unhandledRejections\<close> what the asynchronous callbacks of the component threw: the
  promise of such a callback is held by nobody, so that its rejection goes to the
  platform.
\<close>

record host =
  mounted :: bool
  props :: props
  containerRef :: bool
  editorRef :: "nat option"
  modelRef :: "nat option"
  saveTimeoutRef :: "nat option"
  disposablesRef :: "resource list"
  isDisposedRef :: bool
  isLoading :: bool
  hasUnsavedChanges :: bool
  language :: js_value
  initCleanup :: "nat option"
  editors :: "editor list"
  models :: "text_model list"
  monacoTheme :: string
  timers :: "timer list"
  nextTimerId :: nat
  clock :: nat
  persistCalls :: "(nat \<times> string \<times> string) list"
  errorChannel :: "string list"
  unhandledRejections :: "string list"

text \<open>
  A call either returns or throws; in both cases it leaves a state behind. The calls into
  the library that the source wraps in \<open>try\<close> may throw, as the environment decides.
\<close>

datatype 'a outcome = Normal (state_of: 'a) | Throws (thrown: string) (state_of: 'a)

text \<open>
  The value with which the promise of the persist operation rejects: an object with a
  \<open>message\<close> property holding a string, as \<open>new Error(m)\<close> is; any other value
  except \<open>null\<close> and \<open>undefined\<close>, such as the string \<open>'network error'\<close>, given by
  its text, of which \<open>message\<close> is not a property; or \<open>null\<close> or \<open>undefined\<close>.
  An awaited call either resolves or rejects with such a value.
\<close>

datatype rejection = ErrorObject string | OtherValue string | Nullish

datatype 'a settled = Resolved 'a | Rejected rejection 'a

record env =
  dispose_error :: "resource \<Rightarrow> string option"
  createModel_error :: "string option"
  setModel_error :: "string option"
  focus_error :: "string option"
  persist_error :: "string \<Rightarrow> string \<Rightarrow> rejection option"

text \<open>Sequencing: a throw skips the rest.\<close>

definition andThen :: "'a outcome \<Rightarrow> ('a \<Rightarrow> 'a outcome) \<Rightarrow> 'a outcome" where
  "andThen m f = (case m of Normal s \<Rightarrow> f s | Throws e s \<Rightarrow> Throws e s)"

section \<open>The editing library\<close>

definition upd_editor :: "nat \<Rightarrow> (editor \<Rightarrow> editor) \<Rightarrow> host \<Rightarrow> host" where
  "upd_editor e f s =
     (if e < length (editors s) then s\<lparr>editors := (editors s)[e := f (editors s ! e)]\<rparr> else s)"

definition upd_model :: "nat \<Rightarrow> (text_model \<Rightarrow> text_model) \<Rightarrow> host \<Rightarrow> host" where
  "upd_model m f s =
     (if m < length (models s) then s\<lparr>models := (models s)[m := f (models s ! m)]\<rparr> else s)"

definition detach_model :: "nat \<Rightarrow> editor \<Rightarrow> editor" where
  "detach_model m ed =
     (if ed_attachment ed = Attached m then ed\<lparr>ed_attachment := Detached\<rparr> else ed)"

text \<open>
  What \<open>dispose()\<close> does to a resource. Disposing an editor drops its own buffer, its
  listeners and its commands, and leaves an attached model alone; disposing a model
  detaches it from every editor showing it; disposing a listener unregisters it.
  Disposing again changes nothing.
\<close>

fun release :: "resource \<Rightarrow> host \<Rightarrow> host" where
  "release (EditorRes e) s =
     upd_editor e (\<lambda>ed. ed\<lparr>ed_attachment := Detached, ed_disposed := True,
                             ed_listener := None, ed_command := None\<rparr>) s"
| "release (ModelRes m) s =
     (let s1 = upd_model m (\<lambda>tm. tm\<lparr>tm_disposed := True\<rparr>) s
      in s1\<lparr>editors := map (detach_model m) (editors s1)\<rparr>)"
| "release (ListenerRes e) s = upd_editor e (\<lambda>ed. ed\<lparr>ed_listener := None\<rparr>) s"

text \<open>\<open>resource.dispose()\<close>: the resource is released; the call may then throw.\<close>

definition lib_dispose :: "env \<Rightarrow> resource \<Rightarrow> host \<Rightarrow> host outcome" where
  "lib_dispose env r s =
     (case dispose_error env r of
        None \<Rightarrow> Normal (release r s)
      | Some msg \<Rightarrow> Throws msg (release r s))"

definition getValue :: "nat \<Rightarrow> host \<Rightarrow> string" where
  "getValue e s =
     (if e < length (editors s) then
        (case ed_attachment (editors s ! e) of
           OwnBuffer v \<Rightarrow> v
         | Attached m \<Rightarrow> (if m < length (models s) then tm_value (models s ! m) else [])
         | Detached \<Rightarrow> [])
      else [])"

definition has_model :: "nat \<Rightarrow> host \<Rightarrow> bool" where
  "has_model e s =
     (e < length (editors s) \<and> \<not> ed_disposed (editors s ! e) \<and>
      ed_attachment (editors s ! e) \<noteq> Detached)"

definition write_value :: "nat \<Rightarrow> string \<Rightarrow> host \<Rightarrow> host" where
  "write_value e v s =
     (if e < length (editors s) then
        (case ed_attachment (editors s ! e) of
           OwnBuffer old \<Rightarrow> upd_editor e (\<lambda>ed. ed\<lparr>ed_attachment := OwnBuffer v\<rparr>) s
         | Attached m \<Rightarrow> upd_model m (\<lambda>tm. tm\<lparr>tm_value := v\<rparr>) s
         | Detached \<Rightarrow> s)
      else s)"

text \<open>\<open>monaco.editor.createModel(value, language)\<close>\<close>

definition lib_createModel :: "env \<Rightarrow> string \<Rightarrow> js_value \<Rightarrow> host \<Rightarrow> host outcome" where
  "lib_createModel env v lang s =
     (case createModel_error env of
        Some msg \<Rightarrow> Throws msg s
      | None \<Rightarrow>
          Normal (s\<lparr>models := models s @
                     [\<lparr>tm_value = v, tm_language = lang, tm_disposed = False\<rparr>]\<rparr>))"

text \<open>\<open>editor.setModel(model)\<close>: the model replaces whatever the editor showed.\<close>

definition lib_setModel :: "env \<Rightarrow> nat \<Rightarrow> nat \<Rightarrow> host \<Rightarrow> host outcome" where
  "lib_setModel env e m s =
     (case setModel_error env of
        Some msg \<Rightarrow> Throws msg s
      | None \<Rightarrow> Normal (upd_editor e (\<lambda>ed. ed\<lparr>ed_attachment := Attached m\<rparr>) s))"

definition lib_focus :: "env \<Rightarrow> host \<Rightarrow> host outcome" where
  "lib_focus env s = (case focus_error env of Some msg \<Rightarrow> Throws msg s | None \<Rightarrow> Normal s)"

text \<open>
  \<open>saveFileContent(id, content)\<close>, awaited: the call is recorded with the time at which
  it is made, then it resolves or rejects.
\<close>

definition persist :: "env \<Rightarrow> string \<Rightarrow> string \<Rightarrow> host \<Rightarrow> host settled" where
  "persist env fid content s =
     (let s1 = s\<lparr>persistCalls := persistCalls s @ [(clock s, fid, content)]\<rparr>
      in case persist_error env fid content of
           None \<Rightarrow> Resolved s1
         | Some error \<Rightarrow> Rejected error s1)"

text \<open>
  \<open>prefix + error.message\<close>, for the value \<open>error\<close> that a \<open>catch\<close> of a rejected
  \<open>await\<close> binds: the prefix followed by the message of an object that has one;
  followed by \<open>undefined\<close> for a value without a \<open>message\<close> property; no string at
  all for \<open>null\<close> and \<open>undefined\<close>, of which no property can be read: the read
  throws a \<open>TypeError\<close>.
\<close>

definition concat_message :: "string \<Rightarrow> rejection \<Rightarrow> string option" where
  "concat_message prefix error =
     (case error of
        ErrorObject m \<Rightarrow> Some (prefix @ m)
      | OtherValue v \<Rightarrow> Some (prefix @ ''undefined'')
      | Nullish \<Rightarrow> None)"

definition type_error :: string where
  "type_error = ''TypeError: Cannot read properties of null (reading message)''"

text \<open>\<open>s.startsWith(p)\<close> and \<open>s.includes(p)\<close>\<close>

fun js_startsWith :: "string \<Rightarrow> string \<Rightarrow> bool" where
  "js_startsWith s [] = True"
| "js_startsWith [] (c # p) = False"
| "js_startsWith (a # s) (c # p) = (a = c \<and> js_startsWith s p)"


section \<open>The component's callbacks\<close>

text \<open>
  \<open>safeDispose\<close>: nothing for a null resource; otherwise both branches of the source's
  \<open>if\<close> call \<open>dispose()\<close> (every resource here has a \<open>dispose\<close> function), and whatever
  it throws is caught and only logged.
\<close>

definition safeDispose :: "env \<Rightarrow> resource option \<Rightarrow> host \<Rightarrow> host outcome" where
  "safeDispose env resource s =
     (case resource of
        None \<Rightarrow> Normal s
      | Some r \<Rightarrow>
          (case lib_dispose env r s of
             Normal s1 \<Rightarrow> Normal s1
           | Throws msg s1 \<Rightarrow> Normal s1))"

fun dispose_each :: "env \<Rightarrow> resource list \<Rightarrow> host \<Rightarrow> host outcome" where
  "dispose_each env [] s = Normal s"
| "dispose_each env (r # rs) s = andThen (safeDispose env (Some r) s) (dispose_each env rs)"

definition clearDisposables :: "env \<Rightarrow> host \<Rightarrow> host outcome" where
  "clearDisposables env s =
     (if isDisposedRef s then Normal s
      else andThen (dispose_each env (disposablesRef s) s)
             (\<lambda>s1. Normal (s1\<lparr>disposablesRef := []\<rparr>)))"

definition clearTimeout :: "nat \<Rightarrow> host \<Rightarrow> host" where
  "clearTimeout t s = s\<lparr>timers := filter (\<lambda>x. t_id x \<noteq> t) (timers s)\<rparr>"

text \<open>
  \<open>debouncedSave(content)\<close>, in the render \<open>cl\<close>: a pending timeout is cleared (timer
  identifiers are positive, so a stored identifier is truthy unless it is 0), and a new
  one is set to run after \<open>autoSaveDelay\<close>.
\<close>

definition debouncedSave :: "props \<Rightarrow> string \<Rightarrow> host \<Rightarrow> host" where
  "debouncedSave cl content s =
     (let s1 = (case saveTimeoutRef s of
                  None \<Rightarrow> s
                | Some t \<Rightarrow> if t \<noteq> 0 then clearTimeout t s else s);
          t = nextTimerId s1
      in s1\<lparr>timers := timers s1 @
                [\<lparr>t_id = t, t_due = clock s1 + p_autoSaveDelay cl,
                  t_content = content, t_closure = cl\<rparr>],
             nextTimerId := Suc t,
             saveTimeoutRef := Some t\<rparr>)"

text \<open>
  The body of the timeout set by \<open>debouncedSave\<close>, an asynchronous function. In its
  \<open>catch\<close> the argument of \<open>setError\<close> is computed before \<open>setError\<close> is called,
  so that when reading \<open>error.message\<close> throws, nothing is given to the error channel
  and the function throws (its promise rejects).
\<close>

definition timeout_body :: "env \<Rightarrow> timer \<Rightarrow> host \<Rightarrow> host outcome" where
  "timeout_body env t s =
     (case p_currentFile (t_closure t) of
        None \<Rightarrow> Normal s
      | Some f \<Rightarrow>
          if p_autoSave (t_closure t) then
            (case persist env (f_id f) (t_content t) s of
               Resolved s1 \<Rightarrow> Normal (s1\<lparr>hasUnsavedChanges := False\<rparr>)
             | Rejected error s1 \<Rightarrow>
                 (case concat_message ''Auto-save failed: '' error of
                    Some msg \<Rightarrow> Normal (s1\<lparr>errorChannel := errorChannel s1 @ [msg]\<rparr>)
                  | None \<Rightarrow> Throws type_error s1))
          else Normal s)"

text \<open>\<open>handleSave\<close>, an asynchronous function with the same \<open>catch\<close>.\<close>

definition handleSave :: "env \<Rightarrow> props \<Rightarrow> host \<Rightarrow> host outcome" where
  "handleSave env cl s =
     (case p_currentFile cl of
        None \<Rightarrow> Normal s
      | Some f \<Rightarrow>
          (case editorRef s of
             None \<Rightarrow> Normal s
           | Some e \<Rightarrow>
               (case persist env (f_id f) (getValue e s) s of
                  Resolved s1 \<Rightarrow> Normal (s1\<lparr>hasUnsavedChanges := False\<rparr>)
                | Rejected error s1 \<Rightarrow>
                    (case concat_message ''Save failed: '' error of
                       Some msg \<Rightarrow> Normal (s1\<lparr>errorChannel := errorChannel s1 @ [msg]\<rparr>)
                     | None \<Rightarrow> Throws type_error s1))))"

text \<open>The listener registered with \<open>onDidChangeModelContent\<close> on editor \<open>e\<close>.\<close>

definition onContentChange :: "props \<Rightarrow> nat \<Rightarrow> host \<Rightarrow> host" where
  "onContentChange cl e s =
     (let s1 = s\<lparr>hasUnsavedChanges := True\<rparr>
      in if p_autoSave cl then debouncedSave cl (getValue e s1) s1 else s1)"

text \<open>
  A change of the content of editor \<open>e\<close>, by \<open>setValue\<close> or by the user typing: the
  buffer is replaced and the registered listener runs. An editor without a model, or a
  disposed one, takes no content.
\<close>

definition setValue :: "nat \<Rightarrow> string \<Rightarrow> host \<Rightarrow> host" where
  "setValue e v s =
     (if has_model e s then
        (let s1 = write_value e v s
         in case ed_listener (editors s1 ! e) of
              None \<Rightarrow> s1
            | Some cl \<Rightarrow> onContentChange cl e s1)
      else s)"

section \<open>The component's effects\<close>

definition theme_name :: "props \<Rightarrow> string" where
  "theme_name p = (if p_theme p = ''light'' then ''ai-ide-light'' else ''ai-ide-dark'')"

text \<open>
  The effect that creates the editor. When it returns at its guard it returns no
  cleanup; otherwise the cleanup it returns closes over the editor it created, which
  \<open>initCleanup\<close> records.
\<close>

definition init_effect :: "props \<Rightarrow> host \<Rightarrow> host" where
  "init_effect p s =
     (if \<not> containerRef s \<or> isDisposedRef s then s\<lparr>initCleanup := None\<rparr>
      else
        (let e = length (editors s)
         in s\<lparr>isDisposedRef := False,
               editors := editors s @
                 [\<lparr>ed_attachment = OwnBuffer [], ed_fontSize = p_fontSize p,
                   ed_disposed = False, ed_listener = Some p, ed_command = Some p\<rparr>],
               monacoTheme := theme_name p,
               editorRef := Some e,
               disposablesRef := disposablesRef s @ [ListenerRes e],
               initCleanup := Some e\<rparr>))"

definition clear_save_timeout :: "host \<Rightarrow> host" where
  "clear_save_timeout s =
     (case saveTimeoutRef s of
        None \<Rightarrow> s
      | Some t \<Rightarrow> if t \<noteq> 0 then (clearTimeout t s)\<lparr>saveTimeoutRef := None\<rparr> else s)"

text \<open>The cleanup returned by the creating effect, for the editor \<open>e\<close> it created.\<close>

definition init_cleanup :: "env \<Rightarrow> nat \<Rightarrow> host \<Rightarrow> host outcome" where
  "init_cleanup env e s =
     andThen (clearDisposables env (s\<lparr>isDisposedRef := True\<rparr>))
       (\<lambda>s1. andThen (safeDispose env (Some (EditorRes e)) s1)
          (\<lambda>s2. Normal ((clear_save_timeout s2)\<lparr>editorRef := None\<rparr>)))"

definition content_or_empty :: "current_file \<Rightarrow> string" where
  "content_or_empty f = (case f_content f of None \<Rightarrow> [] | Some c \<Rightarrow> c)"

text \<open>The end of the \<open>try\<close> block of the loading effect: the state update and the focus.\<close>

definition load_finish :: "env \<Rightarrow> js_value \<Rightarrow> host \<Rightarrow> host outcome" where
  "load_finish env lang s =
     lib_focus env (s\<lparr>isLoading := False, language := lang, hasUnsavedChanges := False\<rparr>)"

text \<open>
  The \<open>try\<close> block of the loading effect for file \<open>f\<close> and editor \<open>e\<close>. A throw of
  \<open>setModel\<close> is caught by the inner handler, which returns from the effect.
\<close>

definition load_try :: "env \<Rightarrow> current_file \<Rightarrow> nat \<Rightarrow> host \<Rightarrow> host outcome" where
  "load_try env f e s =
     (let lang = getLanguageFromExtension (f_name f)
      in andThen
           (case modelRef s of
              None \<Rightarrow> Normal s
            | Some m0 \<Rightarrow>
                andThen (safeDispose env (Some (ModelRes m0)) s)
                  (\<lambda>s1. Normal (s1\<lparr>modelRef := None\<rparr>)))
           (\<lambda>s1. let m = length (models s1)
                 in andThen (lib_createModel env (content_or_empty f) lang s1)
                      (\<lambda>s2. let s3 = s2\<lparr>modelRef := Some m\<rparr>
                            in if editorRef s3 \<noteq> None \<and> \<not> isDisposedRef s3 then
                                 (case lib_setModel env e m s3 of
                                    Throws msg s4 \<Rightarrow> Normal s4
                                  | Normal s4 \<Rightarrow> load_finish env lang s4)
                               else load_finish env lang s3)))"

text \<open>The loading effect, for the current file \<open>cf\<close> of the render.\<close>

definition load_effect :: "env \<Rightarrow> current_file option \<Rightarrow> host \<Rightarrow> host outcome" where
  "load_effect env cf s =
     (case editorRef s of
        None \<Rightarrow> Normal s
      | Some e \<Rightarrow>
          (case cf of
             None \<Rightarrow> Normal ((setValue e [] s)\<lparr>language := JStr ''javascript''\<rparr>)
           | Some f \<Rightarrow>
               if isDisposedRef s then Normal s
               else
                 (case load_try env f e (s\<lparr>isLoading := True\<rparr>) of
                    Normal s1 \<Rightarrow> Normal s1
                  | Throws msg s1 \<Rightarrow>
                      Normal (s1\<lparr>errorChannel :=
                                   errorChannel s1 @ [''Failed to load file: '' @ msg],
                                 isLoading := False\<rparr>))))"

definition theme_effect :: "props \<Rightarrow> host \<Rightarrow> host" where
  "theme_effect p s = (if editorRef s \<noteq> None then s\<lparr>monacoTheme := theme_name p\<rparr> else s)"

definition fontSize_effect :: "props \<Rightarrow> host \<Rightarrow> host" where
  "fontSize_effect p s =
     (case editorRef s of
        None \<Rightarrow> s
      | Some e \<Rightarrow> upd_editor e (\<lambda>ed. ed\<lparr>ed_fontSize := p_fontSize p\<rparr>) s)"

text \<open>The cleanup of the last effect, which runs when the component unmounts.\<close>

definition unmount_cleanup :: "env \<Rightarrow> host \<Rightarrow> host outcome" where
  "unmount_cleanup env s =
     andThen (clearDisposables env (s\<lparr>isDisposedRef := True\<rparr>))
       (\<lambda>s1. andThen (safeDispose env (map_option ModelRes (modelRef s1)) s1)
          (\<lambda>s2. Normal ((clear_save_timeout s2)\<lparr>modelRef := None, editorRef := None\<rparr>)))"

section \<open>How the framework drives the component\<close>

text \<open>
  React runs every effect after the first render, in the order of their declaration.
  After a later render it first runs the cleanups of the effects of which a dependency
  changed, then these effects again, in order. The context functions
  \<open>saveFileContent\<close> and \<open>setError\<close> and the callbacks \<open>safeDispose\<close> and
  \<open>clearDisposables\<close> keep their identity; \<open>handleSave\<close> is a new function when
  \<open>currentFile\<close> changed, \<open>debouncedSave\<close> when \<open>currentFile\<close>, \<open>autoSave\<close> or
  \<open>autoSaveDelay\<close> changed.
\<close>

definition initial_host :: "props \<Rightarrow> host" where
  "initial_host p =
     \<lparr>mounted = False, props = p, containerRef = False, editorRef = None, modelRef = None,
      saveTimeoutRef = None, disposablesRef = [], isDisposedRef = False,
      isLoading = False, hasUnsavedChanges = False, language = JStr ''javascript'',
      initCleanup = None, editors = [], models = [], monacoTheme = ''vs'',
      timers = [], nextTimerId = 1, clock = 0, persistCalls = [], errorChannel = [],
      unhandledRejections = []\<rparr>"

definition mount :: "env \<Rightarrow> props \<Rightarrow> host outcome" where
  "mount env p =
     (let s0 = (initial_host p)\<lparr>mounted := True, containerRef := True\<rparr>
      in andThen (load_effect env (p_currentFile p) (init_effect p s0))
           (\<lambda>s1. Normal (fontSize_effect p (theme_effect p s1))))"

definition handleSave_changed :: "props \<Rightarrow> props \<Rightarrow> bool" where
  "handleSave_changed p q = (p_currentFile p \<noteq> p_currentFile q)"

definition debouncedSave_changed :: "props \<Rightarrow> props \<Rightarrow> bool" where
  "debouncedSave_changed p q =
     (p_currentFile p \<noteq> p_currentFile q \<or> p_autoSave p \<noteq> p_autoSave q \<or>
      p_autoSaveDelay p \<noteq> p_autoSaveDelay q)"

definition init_deps_changed :: "props \<Rightarrow> props \<Rightarrow> bool" where
  "init_deps_changed p q =
     (p_theme p \<noteq> p_theme q \<or> p_fontSize p \<noteq> p_fontSize q \<or> handleSave_changed p q \<or>
      p_autoSave p \<noteq> p_autoSave q \<or> debouncedSave_changed p q)"

definition update :: "env \<Rightarrow> props \<Rightarrow> host \<Rightarrow> host outcome" where
  "update env q s =
     (let p = props s
      in andThen
           (if init_deps_changed p q then
              (case initCleanup s of None \<Rightarrow> Normal s | Some e \<Rightarrow> init_cleanup env e s)
            else Normal s)
           (\<lambda>s1. let s2 = s1\<lparr>props := q\<rparr>;
                     s3 = (if init_deps_changed p q then init_effect q s2 else s2)
                 in andThen
                      (if p_currentFile p \<noteq> p_currentFile q
                       then load_effect env (p_currentFile q) s3 else Normal s3)
                      (\<lambda>s4. let s5 = (if p_theme p \<noteq> p_theme q then theme_effect q s4 else s4)
                            in Normal (if p_fontSize p \<noteq> p_fontSize q
                                       then fontSize_effect q s5 else s5))))"

text \<open>Teardown: the cleanup of the creating effect, if it returned one, then the last one.\<close>

definition teardown :: "env \<Rightarrow> host \<Rightarrow> host outcome" where
  "teardown env s =
     andThen (case initCleanup s of None \<Rightarrow> Normal s | Some e \<Rightarrow> init_cleanup env e s)
       (unmount_cleanup env)"

definition unmount :: "env \<Rightarrow> host \<Rightarrow> host outcome" where
  "unmount env s = andThen (teardown env s) (\<lambda>s1. Normal (s1\<lparr>mounted := False\<rparr>))"

text \<open>
  The timer and the editor's command call an asynchronous callback and drop the promise
  it returns: the call itself returns, and what the callback threw is an unhandled
  rejection.
\<close>

definition detached :: "host outcome \<Rightarrow> host outcome" where
  "detached m =
     (case m of
        Normal s \<Rightarrow> Normal s
      | Throws e s \<Rightarrow> Normal (s\<lparr>unhandledRejections := unhandledRejections s @ [e]\<rparr>))"

fun run_timeouts :: "env \<Rightarrow> timer list \<Rightarrow> host \<Rightarrow> host outcome" where
  "run_timeouts env [] s = Normal s"
| "run_timeouts env (t # ts) s =
     andThen (detached (timeout_body env t s)) (run_timeouts env ts)"

text \<open>
  Time passes to \<open>t\<close>: the timeouts that are due run, the earliest first (and in the
  order in which they were set when due at the same time), and are no longer pending.
\<close>

definition advance :: "env \<Rightarrow> nat \<Rightarrow> host \<Rightarrow> host outcome" where
  "advance env t s =
     (let s1 = s\<lparr>clock := max (clock s) t\<rparr>;
          due = sort_key t_due (filter (\<lambda>x. t_due x \<le> clock s1) (timers s1))
      in run_timeouts env due
           (s1\<lparr>timers := filter (\<lambda>x. \<not> t_due x \<le> clock s1) (timers s1)\<rparr>))"

text \<open>The user types, so that the editor's content becomes \<open>c\<close>.\<close>

definition user_edit :: "string \<Rightarrow> host \<Rightarrow> host" where
  "user_edit c s = (case editorRef s of None \<Rightarrow> s | Some e \<Rightarrow> setValue e c s)"

text \<open>The user presses Ctrl/Cmd+S in the editor: the command bound at creation runs.\<close>

definition press_save :: "env \<Rightarrow> host \<Rightarrow> host outcome" where
  "press_save env s =
     (case editorRef s of
        None \<Rightarrow> Normal s
      | Some e \<Rightarrow>
          if e < length (editors s) then
            (case ed_command (editors s ! e) of
               None \<Rightarrow> Normal s
             | Some cl \<Rightarrow> detached (handleSave env cl s))
          else Normal s)"

datatype event = Update props | Edit string | PressSave | Advance nat | Unmount

definition step :: "env \<Rightarrow> event \<Rightarrow> host \<Rightarrow> host outcome" where
  "step env ev s =
     (if \<not> mounted s then Normal s
      else
        (case ev of
           Update q \<Rightarrow> update env q s
         | Edit c \<Rightarrow> Normal (user_edit c s)
         | PressSave \<Rightarrow> press_save env s
         | Advance t \<Rightarrow> advance env t s
         | Unmount \<Rightarrow> unmount env s))"

fun run :: "(env \<times> event) list \<Rightarrow> host \<Rightarrow> host outcome" where
  "run [] s = Normal s"
| "run ((env, ev) # evs) s = andThen (step env ev s) (run evs)"

section \<open>Example data\<close>

definition quiet_env :: env where
  "quiet_env =
     \<lparr>dispose_error = (\<lambda>r. None), createModel_error = None, setModel_error = None,
      focus_error = None, persist_error = (\<lambda>fid content. None)\<rparr>"

definition file_f1 :: current_file where
  "file_f1 = \<lparr>f_obj = 1, f_id = ''f1'', f_name = Some ''main.py'', f_content = Some ''a''\<rparr>"

definition props_f1 :: props where
  "props_f1 =
     \<lparr>p_theme = ''dark'', p_fontSize = 14, p_autoSave = True, p_autoSaveDelay = 2000,
      p_currentFile = Some file_f1\<rparr>"

definition props_no_file :: props where
  "props_no_file = props_f1\<lparr>p_currentFile := None\<rparr>"

text \<open>
  The persist operation rejects with \<open>new Error('network error')\<close>, with the string
  \<open>'network error'\<close>, and with \<open>null\<close>.
\<close>

definition rejecting_env :: env where
  "rejecting_env =
     quiet_env\<lparr>persist_error := (\<lambda>fid content. Some (ErrorObject ''network error''))\<rparr>"

definition string_rejecting_env :: env where
  "string_rejecting_env =
     quiet_env\<lparr>persist_error := (\<lambda>fid content. Some (OtherValue ''network error''))\<rparr>"

definition null_rejecting_env :: env where
  "null_rejecting_env = quiet_env\<lparr>persist_error := (\<lambda>fid content. Some Nullish)\<rparr>"

definition pending_f1 :: timer where
  "pending_f1 = \<lparr>t_id = 1, t_due = 2000, t_content = ''ab'', t_closure = props_f1\<rparr>"

definition throwing_env :: env where
  "throwing_env = quiet_env\<lparr>dispose_error := (\<lambda>r. Some ''Canceled'')\<rparr>"

text \<open>The state with file \<open>f1\<close> loaded and its content edited to \<open>ab\<close>.\<close>

definition edited_host :: host where
  "edited_host = state_of (andThen (mount quiet_env props_f1) (run [(quiet_env, Edit ''ab'')]))"

section \<open>Histories and invariants\<close>

text \<open>The same operation called several times, each time with its own environment.\<close>

fun repeatedly :: "(env \<Rightarrow> host \<Rightarrow> host outcome) \<Rightarrow> env list \<Rightarrow> host \<Rightarrow> host outcome" where
  "repeatedly f [] s = Normal s"
| "repeatedly f (env # envs) s = andThen (f env s) (repeatedly f envs)"

text \<open>The states the component can be in: after mounting, and after any event.\<close>

inductive reachable :: "host \<Rightarrow> bool" where
  reachable_mount: "mount env p = Normal s \<Longrightarrow> reachable s"
| reachable_step: "reachable s \<Longrightarrow> step env ev s = Normal s' \<Longrightarrow> reachable s'"

code_pred reachable .

text \<open>
  Every pending timeout is the one \<open>saveTimeoutRef\<close> holds, with a truthy identifier.
\<close>

definition tracked :: "host \<Rightarrow> bool" where
  "tracked s \<longleftrightarrow>
     nextTimerId s \<noteq> 0 \<and>
     (\<forall>t \<in> set (timers s). saveTimeoutRef s = Some (t_id t) \<and> t_id t \<noteq> 0)"

text \<open>The editor \<open>e\<close> takes content: it has a buffer, and an attached model exists.\<close>

definition editable :: "nat \<Rightarrow> host \<Rightarrow> bool" where
  "editable e s \<longleftrightarrow>
     has_model e s \<and>
     (case ed_attachment (editors s ! e) of Attached m \<Rightarrow> m < length (models s) | _ \<Rightarrow> True)"

text \<open>The component after its editor was disposed: no editor and no pending timeout.\<close>

definition dead :: "host \<Rightarrow> bool" where
  "dead s \<longleftrightarrow> isDisposedRef s \<and> editorRef s = None \<and> timers s = []"

text \<open>
  The component with its editor \<open>e\<close> alive: the pending cleanup is the one of \<open>e\<close>, its
  listener and its save command come from the same render, and a pending timeout was
  set by the listener of \<open>e\<close> with the content \<open>e\<close> now has.
\<close>

definition alive :: "nat \<Rightarrow> host \<Rightarrow> bool" where
  "alive e s \<longleftrightarrow>
     mounted s \<and> \<not> isDisposedRef s \<and> initCleanup s = Some e \<and> editorRef s = Some e \<and>
     e < length (editors s) \<and> ed_command (editors s ! e) = ed_listener (editors s ! e) \<and>
     (\<forall>t \<in> set (timers s).
        ed_listener (editors s ! e) = Some (t_closure t) \<and> p_autoSave (t_closure t) \<and>
        t_content t = getValue e s)"

definition host_inv :: "host \<Rightarrow> bool" where
  "host_inv s \<longleftrightarrow> tracked s \<and> (dead s \<or> (\<exists>e. alive e s))"

text \<open>Two states that differ at most in what a persist call and its handling change.\<close>

definition same_core :: "host \<Rightarrow> host \<Rightarrow> bool" where
  "same_core s s' \<longleftrightarrow>
     timers s' = timers s \<and> saveTimeoutRef s' = saveTimeoutRef s \<and>
     nextTimerId s' = nextTimerId s \<and> isDisposedRef s' = isDisposedRef s \<and>
     initCleanup s' = initCleanup s \<and> editorRef s' = editorRef s \<and>
     modelRef s' = modelRef s \<and> editors s' = editors s \<and> models s' = models s \<and>
     mounted s' = mounted s"

text \<open>The states that the two cleanups and teardown leave behind.\<close>

definition init_cleanup_state :: "nat \<Rightarrow> host \<Rightarrow> host" where
  "init_cleanup_state e s =
     (clear_save_timeout (release (EditorRes e) (s\<lparr>isDisposedRef := True\<rparr>)))
       \<lparr>editorRef := None\<rparr>"

definition unmount_cleanup_state :: "host \<Rightarrow> host" where
  "unmount_cleanup_state s =
     (clear_save_timeout
        (case modelRef s of
           None \<Rightarrow> s\<lparr>isDisposedRef := True\<rparr>
         | Some m \<Rightarrow> release (ModelRes m) (s\<lparr>isDisposedRef := True\<rparr>)))
       \<lparr>modelRef := None, editorRef := None\<rparr>"

definition teardown_state :: "host \<Rightarrow> host" where
  "teardown_state s =
     unmount_cleanup_state
       (case initCleanup s of None \<Rightarrow> s | Some e \<Rightarrow> init_cleanup_state e s)"

text \<open>The content of the editing surface; empty when there is none.\<close>

definition buffer :: "host \<Rightarrow> string" where
  "buffer s = (case editorRef s of None \<Rightarrow> [] | Some e \<Rightarrow> getValue e s)"

text \<open>The persist calls that the timeouts \<open>ts\<close> make when they run at time \<open>now\<close>.\<close>

fun timeout_calls :: "nat \<Rightarrow> timer list \<Rightarrow> (nat \<times> string \<times> string) list" where
  "timeout_calls now [] = []"
| "timeout_calls now (t # ts) =
     (case p_currentFile (t_closure t) of
        None \<Rightarrow> []
      | Some f \<Rightarrow> if p_autoSave (t_closure t) then [(now, f_id f, t_content t)] else [])
     @ timeout_calls now ts"

text \<open>The persist calls made between a state and a later one.\<close>

definition calls_since :: "host \<Rightarrow> host \<Rightarrow> (nat \<times> string \<times> string) list" where
  "calls_since s s' = drop (length (persistCalls s)) (persistCalls s')"

section \<open>The points of a file load\<close>

text \<open>The models that were created and are not disposed.\<close>

definition live_models :: "host \<Rightarrow> nat list" where
  "live_models s = filter (\<lambda>m. \<not> tm_disposed (models s ! m)) [0..<length (models s)]"

definition models_tracked :: "host \<Rightarrow> bool" where
  "models_tracked s \<longleftrightarrow> (\<forall>m \<in> set (live_models s). modelRef s = Some m)"

text \<open>
  The states that the loading effect goes through, one after each of its statements, in
  order; the last one is the state in which it returns. First the end of the \<open>try\<close>
  block, from the state update on; then the attaching; then the creation of the model;
  then the whole effect.
\<close>

definition load_catch :: "string \<Rightarrow> host \<Rightarrow> host" where
  "load_catch msg s =
     s\<lparr>errorChannel := errorChannel s @ [''Failed to load file: '' @ msg],
       isLoading := False\<rparr>"

definition finish_points :: "env \<Rightarrow> js_value \<Rightarrow> host \<Rightarrow> host list" where
  "finish_points env lang s =
     (let s1 = s\<lparr>isLoading := False, language := lang, hasUnsavedChanges := False\<rparr>
      in s1 # (case lib_focus env s1 of
                 Normal s2 \<Rightarrow> []
               | Throws msg s2 \<Rightarrow> [load_catch msg s2]))"

definition attach_points :: "env \<Rightarrow> nat \<Rightarrow> nat \<Rightarrow> js_value \<Rightarrow> host \<Rightarrow> host list" where
  "attach_points env e m lang s =
     (case lib_setModel env e m s of
        Throws msg s1 \<Rightarrow> [s1]
      | Normal s1 \<Rightarrow> s1 # finish_points env lang s1)"

definition create_points :: "env \<Rightarrow> current_file \<Rightarrow> nat \<Rightarrow> js_value \<Rightarrow> host \<Rightarrow> host list" where
  "create_points env f e lang s =
     (case lib_createModel env (content_or_empty f) lang s of
        Throws msg s1 \<Rightarrow> [load_catch msg s1]
      | Normal s1 \<Rightarrow>
          s1 # s1\<lparr>modelRef := Some (length (models s))\<rparr> #
          attach_points env e (length (models s)) lang
            (s1\<lparr>modelRef := Some (length (models s))\<rparr>))"

definition dispose_points :: "env \<Rightarrow> host \<Rightarrow> host list" where
  "dispose_points env s =
     (case modelRef s of
        None \<Rightarrow> [s]
      | Some m0 \<Rightarrow>
          [s, state_of (safeDispose env (Some (ModelRes m0)) s),
           (state_of (safeDispose env (Some (ModelRes m0)) s))\<lparr>modelRef := None\<rparr>])"

definition load_points :: "env \<Rightarrow> current_file option \<Rightarrow> host \<Rightarrow> host list" where
  "load_points env cf s =
     (case editorRef s of
        None \<Rightarrow> [s]
      | Some e \<Rightarrow>
          (case cf of
             None \<Rightarrow> [s, setValue e [] s, (setValue e [] s)\<lparr>language := JStr ''javascript''\<rparr>]
           | Some f \<Rightarrow>
               if isDisposedRef s then [s]
               else
                 s # dispose_points env (s\<lparr>isLoading := True\<rparr>) @
                 create_points env f e (getLanguageFromExtension (f_name f))
                   (last (dispose_points env (s\<lparr>isLoading := True\<rparr>)))))"

text \<open>The points of a sequence of loads, each with its own environment.\<close>

fun load_seq_points :: "(env \<times> current_file option) list \<Rightarrow> host \<Rightarrow> host list" where
  "load_seq_points [] s = [s]"
| "load_seq_points ((env, cf) # rest) s =
     load_points env cf s @ load_seq_points rest (state_of (load_effect env cf s))"

definition file_f2 :: current_file where
  "file_f2 = \<lparr>f_obj = 2, f_id = ''f2'', f_name = Some ''README.MD'', f_content = Some ''b''\<rparr>"

text \<open>
  The state with file \<open>f1\<close> loaded, its content edited to \<open>ab\<close>, and the theme then
  changed to \<open>light\<close>.
\<close>

definition restyled_host :: host where
  "restyled_host =
     state_of (andThen (mount quiet_env props_f1)
       (run [(quiet_env, Edit ''ab''), (quiet_env, Update (props_f1\<lparr>p_theme := ''light''\<rparr>))]))"

section \<open>Unfolding the definitions\<close>

lemmas lang_defs = getLanguageFromExtension_def getLanguageFromFile_def extension_of_def
  pop_def toLowerCase_def toLowerCase_char_def upper_letters_def lower_letters_def
  js_get_def js_or_def property_key_def languageMap_def toolbarLanguageMap_def
  object_prototype_keys_def

lemmas lib_defs = upd_editor_def upd_model_def detach_model_def lib_dispose_def getValue_def
  has_model_def write_value_def lib_createModel_def lib_setModel_def lib_focus_def
  persist_def andThen_def concat_message_def

lemmas callback_defs = safeDispose_def clearDisposables_def clearTimeout_def
  debouncedSave_def timeout_body_def handleSave_def onContentChange_def setValue_def

lemmas effect_defs = theme_name_def init_effect_def clear_save_timeout_def init_cleanup_def
  content_or_empty_def load_finish_def load_try_def load_effect_def theme_effect_def
  fontSize_effect_def unmount_cleanup_def

lemmas driver_defs = initial_host_def mount_def handleSave_changed_def
  debouncedSave_changed_def init_deps_changed_def update_def teardown_def unmount_def
  advance_def user_edit_def press_save_def step_def detached_def

lemmas example_defs = quiet_env_def file_f1_def file_f2_def props_f1_def props_no_file_def
  rejecting_env_def string_rejecting_env_def null_rejecting_env_def throwing_env_def
  pending_f1_def

section \<open>Properties of the operations\<close>

subsection \<open>Releasing resources and the cleanups\<close>

lemma detach_model_idem: "detach_model m (detach_model m ed) = detach_model m ed"
  by (simp add: detach_model_def)

lemma release_idem: "release r (release r s) = release r s"
proof (cases r)
  case (EditorRes e)
  then show ?thesis by (simp add: upd_editor_def)
next
  case (ModelRes m)
  then show ?thesis
    by (simp add: upd_model_def Let_def detach_model_idem)
next
  case (ListenerRes e)
  then show ?thesis by (simp add: upd_editor_def)
qed

lemma safeDispose_eq:
  "safeDispose env r s = Normal (case r of None \<Rightarrow> s | Some x \<Rightarrow> release x s)"
  by (simp add: safeDispose_def lib_dispose_def split: option.splits)

lemma release_fields [simp]:
  "isDisposedRef (release r s) = isDisposedRef s"
  "editorRef (release r s) = editorRef s"
  "modelRef (release r s) = modelRef s"
  "saveTimeoutRef (release r s) = saveTimeoutRef s"
  "timers (release r s) = timers s"
  "nextTimerId (release r s) = nextTimerId s"
  "initCleanup (release r s) = initCleanup s"
  "persistCalls (release r s) = persistCalls s"
  "errorChannel (release r s) = errorChannel s"
  "mounted (release r s) = mounted s"
  "clock (release r s) = clock s"
  "props (release r s) = props s"
  "disposablesRef (release r s) = disposablesRef s"
  "hasUnsavedChanges (release r s) = hasUnsavedChanges s"
  "language (release r s) = language s"
  "isLoading (release r s) = isLoading s"
  by (cases r; simp add: upd_editor_def upd_model_def Let_def)+

lemma init_cleanup_eq:
  "init_cleanup env e s =
     Normal ((clear_save_timeout (release (EditorRes e) (s\<lparr>isDisposedRef := True\<rparr>)))
               \<lparr>editorRef := None\<rparr>)"
  by (simp add: init_cleanup_def clearDisposables_def andThen_def safeDispose_eq)

lemma unmount_cleanup_eq:
  "unmount_cleanup env s =
     Normal ((clear_save_timeout
                (case modelRef s of
                   None \<Rightarrow> s\<lparr>isDisposedRef := True\<rparr>
                 | Some m \<Rightarrow> release (ModelRes m) (s\<lparr>isDisposedRef := True\<rparr>)))
               \<lparr>modelRef := None, editorRef := None\<rparr>)"
  by (simp add: unmount_cleanup_def clearDisposables_def andThen_def safeDispose_eq
      split: option.splits)

lemma clear_save_timeout_fields [simp]:
  "isDisposedRef (clear_save_timeout s) = isDisposedRef s"
  "editorRef (clear_save_timeout s) = editorRef s"
  "modelRef (clear_save_timeout s) = modelRef s"
  "initCleanup (clear_save_timeout s) = initCleanup s"
  "editors (clear_save_timeout s) = editors s"
  "models (clear_save_timeout s) = models s"
  "nextTimerId (clear_save_timeout s) = nextTimerId s"
  "persistCalls (clear_save_timeout s) = persistCalls s"
  "errorChannel (clear_save_timeout s) = errorChannel s"
  "mounted (clear_save_timeout s) = mounted s"
  "clock (clear_save_timeout s) = clock s"
  "props (clear_save_timeout s) = props s"
  "hasUnsavedChanges (clear_save_timeout s) = hasUnsavedChanges s"
  "language (clear_save_timeout s) = language s"
  by (simp_all add: clear_save_timeout_def clearTimeout_def split: option.splits)

lemma clear_save_timeout_tracked:
  "tracked s \<Longrightarrow> timers (clear_save_timeout s) = []"
  by (cases "timers s")
     (auto simp: tracked_def clear_save_timeout_def clearTimeout_def filter_empty_conv
           split: option.splits)

lemma clear_save_timeout_idem: "clear_save_timeout (clear_save_timeout s) = clear_save_timeout s"
  by (simp add: clear_save_timeout_def clearTimeout_def split: option.splits)

lemma clear_save_timeout_upd:
  "clear_save_timeout (s\<lparr>editorRef := x\<rparr>) = (clear_save_timeout s)\<lparr>editorRef := x\<rparr>"
  "clear_save_timeout (s\<lparr>modelRef := y\<rparr>) = (clear_save_timeout s)\<lparr>modelRef := y\<rparr>"
  "clear_save_timeout (s\<lparr>isDisposedRef := b\<rparr>) = (clear_save_timeout s)\<lparr>isDisposedRef := b\<rparr>"
  by (simp_all add: clear_save_timeout_def clearTimeout_def split: option.splits)

lemma release_upd:
  "release r (s\<lparr>editorRef := x\<rparr>) = (release r s)\<lparr>editorRef := x\<rparr>"
  "release r (s\<lparr>modelRef := y\<rparr>) = (release r s)\<lparr>modelRef := y\<rparr>"
  "release r (s\<lparr>isDisposedRef := b\<rparr>) = (release r s)\<lparr>isDisposedRef := b\<rparr>"
  by (cases r; simp add: upd_editor_def upd_model_def Let_def)+

lemma release_clear_save_timeout: "release r (clear_save_timeout s) = clear_save_timeout (release r s)"
  by (cases r; simp add: upd_editor_def upd_model_def Let_def clear_save_timeout_def clearTimeout_def split: option.splits)

lemma release_editor_model_editor:
  "release (EditorRes e) (release (ModelRes m) (release (EditorRes e) s)) =
   release (ModelRes m) (release (EditorRes e) s)"
  by (simp add: upd_editor_def upd_model_def Let_def detach_model_def nth_list_update
      list_update_same_conv map_update)

lemma unmount_cleanup_state_idem: "unmount_cleanup_state (unmount_cleanup_state s) = unmount_cleanup_state s"
  by (simp add: unmount_cleanup_state_def clear_save_timeout_upd release_upd clear_save_timeout_idem del: release.simps split: option.splits)

lemma cleanup_again: "init_cleanup_state e (unmount_cleanup_state (init_cleanup_state e s)) = unmount_cleanup_state (init_cleanup_state e s)"
  by (simp add: unmount_cleanup_state_def init_cleanup_state_def clear_save_timeout_upd release_upd release_clear_save_timeout clear_save_timeout_idem release_idem release_editor_model_editor del: release.simps split: option.splits)

subsection \<open>What a persist call leaves alone\<close>

lemma getValue_cong: "editors s' = editors s \<Longrightarrow> models s' = models s \<Longrightarrow> getValue e s' = getValue e s"
  by (simp add: getValue_def split: attachment.splits)

lemma getValue_upd [simp]:
  "getValue e (s\<lparr>clock := c\<rparr>) = getValue e s"
  "getValue e (s\<lparr>timers := ts\<rparr>) = getValue e s"
  "getValue e (s\<lparr>hasUnsavedChanges := b\<rparr>) = getValue e s"
  "getValue e (s\<lparr>saveTimeoutRef := r\<rparr>) = getValue e s"
  "getValue e (s\<lparr>nextTimerId := n\<rparr>) = getValue e s"
  "getValue e (s\<lparr>language := l\<rparr>) = getValue e s"
  "getValue e (s\<lparr>props := p\<rparr>) = getValue e s"
  "getValue e (s\<lparr>mounted := b\<rparr>) = getValue e s"
  by (rule getValue_cong; simp)+

lemma same_core_host_inv: "same_core s s' \<Longrightarrow> host_inv s \<Longrightarrow> host_inv s'"
  unfolding same_core_def host_inv_def tracked_def dead_def alive_def
  by (elim conjE, simp add: getValue_cong[of s' s])

lemma same_core_trans: "same_core a b \<Longrightarrow> same_core b c \<Longrightarrow> same_core a c"
  by (simp add: same_core_def)

lemma same_core_refl: "same_core a a"
  by (simp add: same_core_def)

lemma andThen_returns: "is_Normal m \<Longrightarrow> andThen m f = f (state_of m)"
  by (cases m) (simp_all add: andThen_def)

lemma detached_returns: "is_Normal (detached m)"
  by (simp add: detached_def split: outcome.splits)

lemma detached_fields [simp]:
  "persistCalls (state_of (detached m)) = persistCalls (state_of m)"
  "errorChannel (state_of (detached m)) = errorChannel (state_of m)"
  "hasUnsavedChanges (state_of (detached m)) = hasUnsavedChanges (state_of m)"
  "clock (state_of (detached m)) = clock (state_of m)"
  "mounted (state_of (detached m)) = mounted (state_of m)"
  "timers (state_of (detached m)) = timers (state_of m)"
  by (simp_all add: detached_def split: outcome.splits)

lemma detached_core: "same_core (state_of m) (state_of (detached m))"
  by (simp add: detached_def same_core_def split: outcome.splits)

lemma detached_Normal: "is_Normal m \<Longrightarrow> detached m = m"
  by (cases m) (simp_all add: detached_def)

lemma timeout_body_core: "same_core s (state_of (timeout_body env t s))"
  by (simp add: timeout_body_def persist_def same_core_def Let_def
      split: option.splits rejection.splits)

lemma timeout_body_clock:
  "clock (state_of (timeout_body env t s)) = clock s"
  "mounted (state_of (timeout_body env t s)) = mounted s"
  by (simp_all add: timeout_body_def persist_def Let_def split: option.splits rejection.splits)

lemma run_timeouts_returns: "is_Normal (run_timeouts env ts s)"
  by (induction ts arbitrary: s) (simp_all add: andThen_returns detached_returns)

lemma run_timeouts_core: "same_core s (state_of (run_timeouts env ts s))"
proof (induction ts arbitrary: s)
  case Nil
  show ?case by (simp add: same_core_refl)
next
  case (Cons t ts)
  show ?case
    using Cons.IH [of "state_of (detached (timeout_body env t s))"]
      same_core_trans [OF timeout_body_core [of s env t] detached_core [of "timeout_body env t s"]]
    by (simp add: andThen_returns detached_returns same_core_trans)
qed

lemma run_timeouts_clock:
  "clock (state_of (run_timeouts env ts s)) = clock s \<and>
   mounted (state_of (run_timeouts env ts s)) = mounted s"
  by (induction ts arbitrary: s) (simp_all add: andThen_returns detached_returns timeout_body_clock)

lemma handleSave_core: "same_core s (state_of (handleSave env cl s))"
  by (simp add: handleSave_def persist_def same_core_def Let_def
      split: option.splits rejection.splits)

lemma press_save_returns: "is_Normal (press_save env s)"
  by (simp add: press_save_def detached_returns split: option.splits)

lemma press_save_core: "same_core s (state_of (press_save env s))"
  using same_core_trans [OF handleSave_core detached_core]
  by (simp add: press_save_def same_core_refl split: option.splits)

lemma advance_returns: "is_Normal (advance env t s)"
  by (simp add: advance_def Let_def run_timeouts_returns)

subsection \<open>The invariant of the component\<close>

lemma filter_inv:
  assumes "host_inv s"
  shows "host_inv (s\<lparr>clock := c, timers := filter P (timers s)\<rparr>)"
proof -
  have tr: "tracked (s\<lparr>clock := c, timers := filter P (timers s)\<rparr>)"
    using assms by (simp add: host_inv_def tracked_def)
  have "dead s \<or> (\<exists>e. alive e s)" using assms by (simp add: host_inv_def)
  then show ?thesis
  proof
    assume "dead s"
    then have "dead (s\<lparr>clock := c, timers := filter P (timers s)\<rparr>)" by (simp add: dead_def)
    with tr show ?thesis by (simp add: host_inv_def)
  next
    assume "\<exists>e. alive e s"
    then obtain e where "alive e s" ..
    then have "alive e (s\<lparr>clock := c, timers := filter P (timers s)\<rparr>)"
      by (simp add: alive_def)
    with tr show ?thesis unfolding host_inv_def by blast
  qed
qed

lemma advance_inv: "host_inv s \<Longrightarrow> host_inv (state_of (advance env t s))"
  unfolding advance_def Let_def
  by (rule same_core_host_inv [OF run_timeouts_core]) (simp add: filter_inv)

lemma debouncedSave_tracked:
  assumes "tracked s"
  shows "debouncedSave cl v s =
     s\<lparr>timers := [\<lparr>t_id = nextTimerId s, t_due = clock s + p_autoSaveDelay cl,
                     t_content = v, t_closure = cl\<rparr>],
       nextTimerId := Suc (nextTimerId s),
       saveTimeoutRef := Some (nextTimerId s)\<rparr>"
proof (cases "timers s")
  case Nil
  then show ?thesis
    by (simp add: debouncedSave_def clearTimeout_def Let_def split: option.splits)
next
  case (Cons t ts)
  then have ref: "saveTimeoutRef s = Some (t_id t)" "t_id t \<noteq> 0"
    using assms by (simp_all add: tracked_def)
  have "filter (\<lambda>x. t_id x \<noteq> t_id t) (timers s) = []"
    using assms ref by (auto simp: tracked_def filter_empty_conv)
  then show ?thesis using ref
    by (simp add: debouncedSave_def clearTimeout_def Let_def)
qed

lemma write_value_fields [simp]:
  "timers (write_value e v s) = timers s"
  "saveTimeoutRef (write_value e v s) = saveTimeoutRef s"
  "nextTimerId (write_value e v s) = nextTimerId s"
  "isDisposedRef (write_value e v s) = isDisposedRef s"
  "initCleanup (write_value e v s) = initCleanup s"
  "editorRef (write_value e v s) = editorRef s"
  "clock (write_value e v s) = clock s"
  "persistCalls (write_value e v s) = persistCalls s"
  "mounted (write_value e v s) = mounted s"
  "length (editors (write_value e v s)) = length (editors s)"
  "length (models (write_value e v s)) = length (models s)"
  by (simp_all add: write_value_def upd_editor_def upd_model_def split: attachment.splits)

lemma write_value_listener [simp]:
  "ed_listener (editors (write_value e v s) ! e) = ed_listener (editors s ! e)"
  "ed_command (editors (write_value e v s) ! e) = ed_command (editors s ! e)"
  "ed_disposed (editors (write_value e v s) ! e) = ed_disposed (editors s ! e)"
  by (simp_all add: write_value_def upd_editor_def upd_model_def split: attachment.splits)

lemma tracked_frame:
  "timers s' = timers s \<Longrightarrow> saveTimeoutRef s' = saveTimeoutRef s \<Longrightarrow>
   nextTimerId s' = nextTimerId s \<Longrightarrow> tracked s \<Longrightarrow> tracked s'"
  by (simp add: tracked_def)

lemma setValue_inv:
  assumes inv: "host_inv s" and ref: "editorRef s = Some e"
  shows "host_inv (setValue e c s)"
proof (cases "has_model e s")
  case False
  then show ?thesis using inv by (simp add: setValue_def)
next
  case True
  let ?s1 = "write_value e c s"
  have tr: "tracked s" using inv by (simp add: host_inv_def)
  have "\<not> dead s" using ref by (simp add: dead_def)
  then obtain e' where "alive e' s" using inv by (auto simp: host_inv_def)
  then have al: "alive e s" using ref by (simp add: alive_def)
  have tr1: "tracked ?s1" using tr by (rule tracked_frame [rotated 3]) simp_all
  show ?thesis
  proof (cases "ed_listener (editors s ! e)")
    case None
    then have "timers s = []" using al by (cases "timers s") (auto simp: alive_def)
    then have "alive e ?s1" using al by (simp add: alive_def)
    moreover have "setValue e c s = ?s1" using True None by (simp add: setValue_def Let_def)
    ultimately show ?thesis using tr1 unfolding host_inv_def by auto
  next
    case (Some cl)
    show ?thesis
    proof (cases "p_autoSave cl")
      case False
      then have "timers s = []" using al Some by (cases "timers s") (auto simp: alive_def)
      then have "alive e (?s1\<lparr>hasUnsavedChanges := True\<rparr>)" using al by (simp add: alive_def)
      moreover have "tracked (?s1\<lparr>hasUnsavedChanges := True\<rparr>)"
        using tr1 by (simp add: tracked_def)
      moreover have "setValue e c s = ?s1\<lparr>hasUnsavedChanges := True\<rparr>"
        using True Some False by (simp add: setValue_def onContentChange_def Let_def)
      ultimately show ?thesis unfolding host_inv_def by auto
    next
      case auto: True
      let ?s2 = "?s1\<lparr>hasUnsavedChanges := True\<rparr>"
      have tr2: "tracked ?s2" using tr1 by (simp add: tracked_def)
      have eq: "setValue e c s = debouncedSave cl (getValue e ?s2) ?s2"
        using True Some auto by (simp add: setValue_def onContentChange_def Let_def)
      let ?s3 = "debouncedSave cl (getValue e ?s2) ?s2"
      have s3: "?s3 = ?s2\<lparr>timers := [\<lparr>t_id = nextTimerId ?s2, t_due = clock ?s2 + p_autoSaveDelay cl,
                     t_content = getValue e ?s2, t_closure = cl\<rparr>],
            nextTimerId := Suc (nextTimerId ?s2),
            saveTimeoutRef := Some (nextTimerId ?s2)\<rparr>"
        by (rule debouncedSave_tracked [OF tr2])
      have "tracked ?s3" unfolding s3 using tr2 by (simp add: tracked_def)
      moreover have "alive e ?s3"
        unfolding s3 using al Some auto by (simp add: alive_def)
      ultimately show ?thesis unfolding host_inv_def eq by auto
    qed
  qed
qed

lemma user_edit_inv: "host_inv s \<Longrightarrow> host_inv (user_edit c s)"
  by (simp add: user_edit_def setValue_inv split: option.splits)

lemma init_cleanup_returns: "init_cleanup env e s = Normal (init_cleanup_state e s)"
  by (simp add: init_cleanup_eq init_cleanup_state_def)

lemma unmount_cleanup_returns: "unmount_cleanup env s = Normal (unmount_cleanup_state s)"
  by (simp add: unmount_cleanup_eq unmount_cleanup_state_def)

lemma init_cleanup_state_dead: "tracked s \<Longrightarrow> dead (init_cleanup_state e s) \<and> tracked (init_cleanup_state e s)"
proof -
  assume tr: "tracked s"
  let ?r = "release (EditorRes e) (s\<lparr>isDisposedRef := True\<rparr>)"
  have "tracked ?r" using tr by (simp add: tracked_def del: release.simps)
  then have "timers (clear_save_timeout ?r) = []" by (rule clear_save_timeout_tracked)
  then show ?thesis using tr
    by (simp add: init_cleanup_state_def dead_def tracked_def del: release.simps)
qed

lemma unmount_cleanup_state_dead: "tracked s \<Longrightarrow> dead (unmount_cleanup_state s) \<and> tracked (unmount_cleanup_state s)"
proof -
  assume tr: "tracked s"
  let ?r = "case modelRef s of None \<Rightarrow> s\<lparr>isDisposedRef := True\<rparr>
     | Some m \<Rightarrow> release (ModelRes m) (s\<lparr>isDisposedRef := True\<rparr>)"
  have "tracked ?r" using tr by (simp add: tracked_def del: release.simps split: option.splits)
  then have "timers (clear_save_timeout ?r) = []" by (rule clear_save_timeout_tracked)
  moreover have "isDisposedRef ?r" "nextTimerId ?r = nextTimerId s"
    by (simp_all del: release.simps split: option.splits)
  ultimately show ?thesis using tr
    by (simp add: unmount_cleanup_state_def dead_def tracked_def del: release.simps)
qed

lemma effects_on_dead:
  assumes "isDisposedRef s" "editorRef s = None"
  shows "init_effect q s = s\<lparr>initCleanup := None\<rparr>"
    and "load_effect env cf s = Normal s"
    and "theme_effect q s = s"
    and "fontSize_effect q s = s"
  using assms by (simp_all add: init_effect_def load_effect_def theme_effect_def fontSize_effect_def)

lemma update_unchanged:
  "\<not> init_deps_changed (props s) q \<Longrightarrow> update env q s = Normal (s\<lparr>props := q\<rparr>)"
  by (simp add: update_def init_deps_changed_def handleSave_changed_def
      debouncedSave_changed_def Let_def andThen_def)

lemma update_changed:
  assumes ch: "init_deps_changed (props s) q"
    and nc: "initCleanup s = None \<longrightarrow> isDisposedRef s \<and> editorRef s = None"
    and tr: "tracked s"
  shows "update env q s =
     Normal ((case initCleanup s of None \<Rightarrow> s | Some e \<Rightarrow> init_cleanup_state e s)\<lparr>props := q, initCleanup := None\<rparr>)"
proof -
  let ?s1 = "case initCleanup s of None \<Rightarrow> s | Some e \<Rightarrow> init_cleanup_state e s"
  have d: "isDisposedRef ?s1 \<and> editorRef ?s1 = None"
    using nc init_cleanup_state_dead [OF tr] by (auto simp: dead_def split: option.splits)
  have c: "(case initCleanup s of None \<Rightarrow> Normal s | Some e \<Rightarrow> init_cleanup env e s) = Normal ?s1"
    by (simp add: init_cleanup_returns split: option.splits)
  let ?s2 = "?s1\<lparr>props := q\<rparr>"
  have d2: "isDisposedRef ?s2" "editorRef ?s2 = None" using d by simp_all
  let ?s3 = "?s2\<lparr>initCleanup := None\<rparr>"
  have d3: "isDisposedRef ?s3" "editorRef ?s3 = None" using d by simp_all
  have i: "init_effect q ?s2 = ?s3" by (rule effects_on_dead(1) [OF d2])
  have l: "load_effect env (p_currentFile q) ?s3 = Normal ?s3" by (rule effects_on_dead(2) [OF d3])
  have t: "theme_effect q ?s3 = ?s3" by (rule effects_on_dead(3) [OF d3])
  have f: "fontSize_effect q ?s3 = ?s3" by (rule effects_on_dead(4) [OF d3])
  show ?thesis
    unfolding update_def Let_def using ch
    by (simp only: c if_True andThen_def outcome.case i l t f if_cancel)
qed

lemma inv_no_cleanup:
  "host_inv s \<Longrightarrow> initCleanup s = None \<longrightarrow> isDisposedRef s \<and> editorRef s = None"
  by (auto simp: host_inv_def dead_def alive_def)

lemma update_returns: "host_inv s \<Longrightarrow> is_Normal (update env q s)"
  by (cases "init_deps_changed (props s) q")
     (simp_all add: update_unchanged update_changed inv_no_cleanup host_inv_def)

lemma props_inv: "host_inv s \<Longrightarrow> host_inv (s\<lparr>props := q\<rparr>)"
  unfolding host_inv_def tracked_def dead_def alive_def by simp

lemma update_inv:
  assumes inv: "host_inv s"
  shows "host_inv (state_of (update env q s))"
proof (cases "init_deps_changed (props s) q")
  case False
  then show ?thesis using inv by (simp add: update_unchanged props_inv)
next
  case True
  have tr: "tracked s" using inv by (simp add: host_inv_def)
  let ?s1 = "case initCleanup s of None \<Rightarrow> s | Some e \<Rightarrow> init_cleanup_state e s"
  have "dead ?s1 \<and> tracked ?s1"
  proof (cases "initCleanup s")
    case None
    then show ?thesis using inv by (auto simp: host_inv_def alive_def)
  next
    case (Some e)
    then show ?thesis using init_cleanup_state_dead [OF tr] by simp
  qed
  then have "host_inv (?s1\<lparr>props := q, initCleanup := None\<rparr>)"
    by (simp add: host_inv_def dead_def tracked_def)
  then show ?thesis
    using update_changed [OF True inv_no_cleanup [OF inv] tr] by simp
qed

lemma teardown_composed:
  "teardown env s = Normal (unmount_cleanup_state (case initCleanup s of None \<Rightarrow> s | Some e \<Rightarrow> init_cleanup_state e s))"
  by (simp add: teardown_def andThen_def init_cleanup_returns unmount_cleanup_returns split: option.splits)

lemma unmount_inv: "host_inv s \<Longrightarrow> host_inv (state_of (unmount env s))"
proof -
  assume inv: "host_inv s"
  have tr: "tracked s" using inv by (simp add: host_inv_def)
  have "tracked (case initCleanup s of None \<Rightarrow> s | Some e \<Rightarrow> init_cleanup_state e s)"
    using tr init_cleanup_state_dead [OF tr] by (simp split: option.splits)
  then have "dead (unmount_cleanup_state (case initCleanup s of None \<Rightarrow> s | Some e \<Rightarrow> init_cleanup_state e s)) \<and>
             tracked (unmount_cleanup_state (case initCleanup s of None \<Rightarrow> s | Some e \<Rightarrow> init_cleanup_state e s))"
    by (rule unmount_cleanup_state_dead)
  then show ?thesis
    by (simp add: unmount_def teardown_composed andThen_def host_inv_def dead_def tracked_def)
qed

lemma unmount_returns: "is_Normal (unmount env s)"
  by (simp add: unmount_def teardown_composed andThen_def)

lemma step_returns: "host_inv s \<Longrightarrow> is_Normal (step env ev s)"
  by (cases ev)
     (simp_all add: step_def update_returns press_save_returns advance_returns unmount_returns)

lemma step_inv: "host_inv s \<Longrightarrow> host_inv (state_of (step env ev s))"
proof (cases "mounted s")
  case False
  assume "host_inv s"
  then show ?thesis using False by (simp add: step_def)
next
  case True
  assume inv: "host_inv s"
  show ?thesis
  proof (cases ev)
    case (Update q)
    then show ?thesis using True inv by (simp add: step_def update_inv)
  next
    case (Edit c)
    then show ?thesis using True inv by (simp add: step_def user_edit_inv)
  next
    case PressSave
    then show ?thesis using True inv
      by (simp add: step_def same_core_host_inv [OF press_save_core])
  next
    case (Advance t)
    then show ?thesis using True inv by (simp add: step_def advance_inv)
  next
    case Unmount
    then show ?thesis using True inv by (simp add: step_def unmount_inv)
  qed
qed

lemma mount_returns: "is_Normal (mount env p)"
  by (simp add: mount_def initial_host_def init_effect_def load_effect_def load_try_def
      load_finish_def lib_focus_def lib_setModel_def lib_createModel_def safeDispose_eq
      andThen_def Let_def split: option.splits)

lemma mount_inv: "host_inv (state_of (mount env p))"
  by (simp add: mount_def initial_host_def init_effect_def load_effect_def load_try_def
      load_finish_def lib_focus_def lib_setModel_def lib_createModel_def safeDispose_eq
      andThen_def Let_def theme_effect_def fontSize_effect_def upd_editor_def
      setValue_def has_model_def write_value_def onContentChange_def debouncedSave_def
      host_inv_def tracked_def dead_def alive_def getValue_def
      split: option.splits)

lemma reachable_inv: "reachable s \<Longrightarrow> host_inv s"
proof (induction rule: reachable.induct)
  case (reachable_mount env p s)
  then show ?case using mount_inv [of env p] by simp
next
  case (reachable_step s env ev s')
  then show ?case using step_inv [of s env ev] by simp
qed

subsection \<open>Teardown\<close>

lemma init_cleanup_state_initCleanup [simp]: "initCleanup (init_cleanup_state e s) = initCleanup s"
  by (simp add: init_cleanup_state_def del: release.simps)

lemma unmount_cleanup_state_initCleanup [simp]: "initCleanup (unmount_cleanup_state s) = initCleanup s"
  by (simp add: unmount_cleanup_state_def del: release.simps split: option.splits)

lemma teardown_eq: "teardown env s = Normal (teardown_state s)"
  by (simp add: teardown_composed teardown_state_def)

lemma teardown_state_idem: "teardown_state (teardown_state s) = teardown_state s"
  by (cases "initCleanup s") (simp_all add: teardown_state_def unmount_cleanup_state_idem cleanup_again)

lemma teardown_state_fields:
  "isDisposedRef (teardown_state s)" "editorRef (teardown_state s) = None" "modelRef (teardown_state s) = None"
  by (simp_all add: teardown_state_def unmount_cleanup_state_def del: release.simps split: option.splits)

lemma teardown_state_dead: "tracked s \<Longrightarrow> dead (teardown_state s) \<and> tracked (teardown_state s)"
  unfolding teardown_state_def using init_cleanup_state_dead [of s] by (cases "initCleanup s") (simp_all add: unmount_cleanup_state_dead)

lemma repeatedly_teardown: "repeatedly teardown envs (teardown_state s) = Normal (teardown_state s)"
  by (induction envs) (simp_all add: teardown_eq andThen_def teardown_state_idem)

lemma safeDispose_returns: "is_Normal (safeDispose env r s)"
  by (simp add: safeDispose_eq)

lemma repeatedly_safeDispose:
  "repeatedly (\<lambda>env. safeDispose env r) envs (state_of (safeDispose env0 r s))
     = Normal (state_of (safeDispose env0 r s))"
  by (induction envs)
     (simp_all add: safeDispose_eq andThen_def release_idem del: release.simps split: option.splits)

subsection \<open>A disposed host stays disposed\<close>

lemma step_disposed:
  assumes inv: "host_inv s" and d: "isDisposedRef s"
  shows "isDisposedRef (state_of (step env ev s)) \<and>
         persistCalls (state_of (step env ev s)) = persistCalls s"
proof (cases "mounted s")
  case False
  then show ?thesis using d by (simp add: step_def)
next
  case True
  have dd: "dead s" using inv d by (auto simp: host_inv_def alive_def)
  have tr: "tracked s" using inv by (simp add: host_inv_def)
  show ?thesis
  proof (cases ev)
    case (Update q)
    show ?thesis
    proof (cases "init_deps_changed (props s) q")
      case False
      then show ?thesis using True Update d by (simp add: step_def update_unchanged)
    next
      case ch: True
      show ?thesis
        using update_changed [OF ch inv_no_cleanup [OF inv] tr, of env] True Update d
        by (simp add: step_def init_cleanup_state_def del: release.simps split: option.splits)
    qed
  next
    case (Edit c)
    then show ?thesis using True dd by (simp add: step_def user_edit_def dead_def)
  next
    case PressSave
    then show ?thesis using True dd by (simp add: step_def press_save_def dead_def)
  next
    case (Advance t)
    then show ?thesis using True dd by (simp add: step_def advance_def dead_def)
  next
    case Unmount
    then show ?thesis using True
      by (simp add: step_def unmount_def teardown_eq andThen_def teardown_state_def unmount_cleanup_state_def init_cleanup_state_def
          del: release.simps split: option.splits)
  qed
qed

lemma run_disposed:
  "host_inv s \<Longrightarrow> isDisposedRef s \<Longrightarrow>
   is_Normal (run evs s) \<and> dead (state_of (run evs s)) \<and>
   persistCalls (state_of (run evs s)) = persistCalls s"
proof (induction evs arbitrary: s)
  case Nil
  then show ?case by (auto simp: host_inv_def alive_def)
next
  case (Cons a evs)
  obtain env ev where a: "a = (env, ev)" by (cases a)
  let ?s1 = "state_of (step env ev s)"
  have 1: "is_Normal (step env ev s)" using Cons.prems(1) by (rule step_returns)
  have 2: "host_inv ?s1" using Cons.prems(1) by (rule step_inv)
  have 3: "isDisposedRef ?s1" "persistCalls ?s1 = persistCalls s"
    using step_disposed [OF Cons.prems] by simp_all
  show ?case using Cons.IH [OF 2 3(1)] 1 3(2) by (simp add: a andThen_returns)
qed

subsection \<open>Editing with autosave on\<close>

lemma getValue_write_value: "editable e s \<Longrightarrow> getValue e (write_value e v s) = v"
  by (auto simp: editable_def has_model_def getValue_def write_value_def upd_editor_def
      upd_model_def split: attachment.splits)

lemma editable_write_value: "editable e s \<Longrightarrow> editable e (write_value e v s)"
  by (auto simp: editable_def has_model_def write_value_def upd_editor_def
      upd_model_def split: attachment.splits)

lemma editable_cong:
  "editors s' = editors s \<Longrightarrow> models s' = models s \<Longrightarrow> editable e s' = editable e s"
  by (simp add: editable_def has_model_def split: attachment.splits)

lemma user_edit_autosave:
  assumes "editorRef s = Some e" "editable e s" "ed_listener (editors s ! e) = Some cl"
    "p_autoSave cl" "tracked s"
  shows "user_edit c s =
     (write_value e c s)
       \<lparr>hasUnsavedChanges := True,
        timers := [\<lparr>t_id = nextTimerId s, t_due = clock s + p_autoSaveDelay cl,
                     t_content = c, t_closure = cl\<rparr>],
        nextTimerId := Suc (nextTimerId s),
        saveTimeoutRef := Some (nextTimerId s)\<rparr>"
proof -
  let ?s2 = "(write_value e c s)\<lparr>hasUnsavedChanges := True\<rparr>"
  have tr2: "tracked ?s2" using assms(5) by (simp add: tracked_def)
  have "user_edit c s = debouncedSave cl (getValue e ?s2) ?s2"
    using assms by (simp add: user_edit_def setValue_def onContentChange_def Let_def editable_def)
  also have "\<dots> = ?s2\<lparr>timers := [\<lparr>t_id = nextTimerId ?s2, t_due = clock ?s2 + p_autoSaveDelay cl,
                     t_content = getValue e ?s2, t_closure = cl\<rparr>],
            nextTimerId := Suc (nextTimerId ?s2),
            saveTimeoutRef := Some (nextTimerId ?s2)\<rparr>"
    by (rule debouncedSave_tracked [OF tr2])
  finally show ?thesis using assms(2) by (simp add: getValue_write_value)
qed

lemma advance_single:
  assumes "timers s = [t]"
  shows "advance env t3 s =
     (if t_due t \<le> max (clock s) t3
      then detached (timeout_body env t (s\<lparr>clock := max (clock s) t3, timers := []\<rparr>))
      else Normal (s\<lparr>clock := max (clock s) t3\<rparr>))"
  using assms by (simp add: advance_def Let_def andThen_returns detached_returns detached_Normal)

lemma timeout_body_calls:
  assumes "p_currentFile (t_closure t) = Some f" "p_autoSave (t_closure t)"
  shows "persistCalls (state_of (timeout_body env t s)) =
           persistCalls s @ [(clock s, f_id f, t_content t)]"
  using assms
  by (simp add: timeout_body_def persist_def Let_def split: option.splits rejection.splits)

subsection \<open>Reachable states and the calls of timeouts\<close>

lemma reachable_mount_state: "reachable (state_of (mount env p))"
  using mount_returns [of env p] reachable_mount [of env p "state_of (mount env p)"]
  by (cases "mount env p") simp_all

lemma reachable_step_state: "reachable s \<Longrightarrow> reachable (state_of (step env ev s))"
  using step_returns [OF reachable_inv, of s env ev]
    reachable_step [of s env ev "state_of (step env ev s)"]
  by (cases "step env ev s") simp_all

lemma run_returns: "host_inv s \<Longrightarrow> is_Normal (run evs s)"
proof (induction evs arbitrary: s)
  case Nil
  show ?case by simp
next
  case (Cons a evs)
  obtain env ev where a: "a = (env, ev)" by (cases a)
  show ?case
    using Cons.IH [OF step_inv [OF Cons.prems, of env ev]] step_returns [OF Cons.prems, of env ev]
    by (simp add: a andThen_returns)
qed

lemma reachable_run_state: "reachable s \<Longrightarrow> reachable (state_of (run evs s))"
proof (induction evs arbitrary: s)
  case Nil
  then show ?case by simp
next
  case (Cons a evs)
  obtain env ev where a: "a = (env, ev)" by (cases a)
  show ?case
    using Cons.IH [OF reachable_step_state [OF Cons.prems, of env ev]]
      step_returns [OF reachable_inv [OF Cons.prems], of env ev]
    by (simp add: a andThen_returns)
qed

lemma inv_timer_buffer:
  "host_inv s \<Longrightarrow> t \<in> set (timers s) \<Longrightarrow> t_content t = buffer s"
  by (auto simp: host_inv_def dead_def alive_def buffer_def)

lemma timeout_body_persistCalls:
  "persistCalls (state_of (timeout_body env t s)) = persistCalls s @ timeout_calls (clock s) [t]"
  by (simp add: timeout_body_def persist_def Let_def split: option.splits rejection.splits)

lemma timeout_calls_append:
  "timeout_calls now (xs @ ys) = timeout_calls now xs @ timeout_calls now ys"
  by (induction xs) simp_all

lemma run_timeouts_persistCalls:
  "persistCalls (state_of (run_timeouts env ts s)) = persistCalls s @ timeout_calls (clock s) ts"
proof (induction ts arbitrary: s)
  case Nil
  show ?case by simp
next
  case (Cons t ts)
  show ?case
    using Cons.IH [of "state_of (detached (timeout_body env t s))"]
      timeout_calls_append [of "clock s" "[t]" ts]
    by (simp add: andThen_returns detached_returns timeout_body_persistCalls
        timeout_body_clock del: timeout_calls.simps)
qed

lemma advance_persistCalls:
  "persistCalls (state_of (advance env t s)) =
     persistCalls s @ timeout_calls (max (clock s) t)
        (sort_key t_due (filter (\<lambda>x. t_due x \<le> max (clock s) t) (timers s)))"
  by (simp add: advance_def Let_def run_timeouts_persistCalls)

lemma timeout_calls_content:
  "c \<in> set (timeout_calls now ts) \<Longrightarrow> snd (snd c) \<in> t_content ` set ts"
  by (induction ts) (auto split: option.splits if_splits)

lemma advance_buffer: "buffer (state_of (advance env t s)) = buffer s"
proof -
  have "same_core (s\<lparr>clock := max (clock s) t,
        timers := filter (\<lambda>x. \<not> t_due x \<le> max (clock s) t) (timers s)\<rparr>)
      (state_of (advance env t s))"
    unfolding advance_def Let_def using run_timeouts_core by simp
  then show ?thesis
    by (simp add: same_core_def buffer_def getValue_cong [of "state_of (advance env t s)" s]
        split: option.splits)
qed

lemma advance_calls_current:
  assumes "host_inv s" and "c \<in> set (calls_since s (state_of (advance env t s)))"
  shows "snd (snd c) = buffer s"
proof -
  have "c \<in> set (timeout_calls (max (clock s) t)
        (sort_key t_due (filter (\<lambda>x. t_due x \<le> max (clock s) t) (timers s))))"
    using assms(2) by (simp add: calls_since_def advance_persistCalls)
  then have "snd (snd c) \<in> t_content `
      set (sort_key t_due (filter (\<lambda>x. t_due x \<le> max (clock s) t) (timers s)))"
    by (rule timeout_calls_content)
  then show ?thesis using inv_timer_buffer [OF assms(1)] by auto
qed

lemma press_save_pending:
  assumes inv: "host_inv s" and t: "t \<in> set (timers s)"
    and f: "p_currentFile (t_closure t) = Some f"
  shows "step env PressSave s =
     (case persist_error env (f_id f) (buffer s) of
        None \<Rightarrow> Normal (s\<lparr>persistCalls := persistCalls s @ [(clock s, f_id f, buffer s)],
                           hasUnsavedChanges := False\<rparr>)
      | Some error \<Rightarrow>
          (case concat_message ''Save failed: '' error of
             Some msg \<Rightarrow>
               Normal (s\<lparr>persistCalls := persistCalls s @ [(clock s, f_id f, buffer s)],
                         errorChannel := errorChannel s @ [msg]\<rparr>)
           | None \<Rightarrow>
               Normal (s\<lparr>persistCalls := persistCalls s @ [(clock s, f_id f, buffer s)],
                         unhandledRejections := unhandledRejections s @ [type_error]\<rparr>)))"
proof -
  have "\<not> dead s" using t by (auto simp: dead_def)
  then obtain e where al: "alive e s" using inv by (auto simp: host_inv_def)
  have m: "mounted s" and ref: "editorRef s = Some e" and len: "e < length (editors s)"
    using al by (simp_all add: alive_def)
  have "ed_listener (editors s ! e) = Some (t_closure t)" using al t by (simp add: alive_def)
  then have c: "ed_command (editors s ! e) = Some (t_closure t)" using al by (simp add: alive_def)
  have b: "buffer s = getValue e s" using ref by (simp add: buffer_def)
  have "step env PressSave s = detached (handleSave env (t_closure t) s)"
    using m ref len c by (simp add: step_def press_save_def)
  also have "\<dots> = detached (case persist env (f_id f) (getValue e s) s of
                  Resolved s1 \<Rightarrow> Normal (s1\<lparr>hasUnsavedChanges := False\<rparr>)
                | Rejected error s1 \<Rightarrow>
                    (case concat_message ''Save failed: '' error of
                       Some msg \<Rightarrow> Normal (s1\<lparr>errorChannel := errorChannel s1 @ [msg]\<rparr>)
                     | None \<Rightarrow> Throws type_error s1))"
    using f ref by (simp add: handleSave_def)
  finally show ?thesis
    by (simp add: b persist_def detached_def Let_def split: option.splits)
qed

subsection \<open>Live models\<close>

lemma live_models_iff:
  "m \<in> set (live_models s) \<longleftrightarrow> m < length (models s) \<and> \<not> tm_disposed (models s ! m)"
  by (auto simp: live_models_def)

lemma live_models_distinct: "distinct (live_models s)"
  by (simp add: live_models_def)

lemma live_models_cong: "models s' = models s \<Longrightarrow> live_models s' = live_models s"
  by (simp add: live_models_def)

lemma at_most_one:
  assumes "set (live_models s) \<subseteq> {x}"
  shows "length (live_models s) \<le> 1"
proof -
  have "length (live_models s) = card (set (live_models s))"
    using live_models_distinct by (simp add: distinct_card)
  also have "\<dots> \<le> card {x}" using assms by (intro card_mono) simp_all
  finally show ?thesis by simp
qed

lemma tracked_at_most_one: "models_tracked s \<Longrightarrow> length (live_models s) \<le> 1"
proof (cases "modelRef s")
  case None
  assume "models_tracked s"
  then have "set (live_models s) = {}" using None by (auto simp: models_tracked_def)
  then show ?thesis by simp
next
  case (Some m)
  assume "models_tracked s"
  then have "set (live_models s) \<subseteq> {m}" using Some by (auto simp: models_tracked_def)
  then show ?thesis by (rule at_most_one)
qed

lemma release_model_live:
  "set (live_models (release (ModelRes m0) s)) = set (live_models s) - {m0}"
  by (auto simp: live_models_iff upd_model_def Let_def nth_list_update split: if_splits)

lemma createModel_live:
  "createModel_error env = None \<Longrightarrow>
   set (live_models (state_of (lib_createModel env v lang s)))
     = insert (length (models s)) (set (live_models s))"
  by (auto simp: live_models_iff lib_createModel_def nth_append less_Suc_eq)

lemma live_models_eqI:
  assumes "length (models s') = length (models s)"
    and "\<And>m. m < length (models s) \<Longrightarrow> tm_disposed (models s' ! m) = tm_disposed (models s ! m)"
  shows "live_models s' = live_models s"
  unfolding live_models_def using assms by (intro filter_cong) auto

lemma write_value_live [simp]: "live_models (write_value e v s) = live_models s"
  by (rule live_models_eqI)
     (simp_all add: write_value_def upd_editor_def upd_model_def nth_list_update
        split: attachment.splits)

lemma debouncedSave_models [simp]: "models (debouncedSave cl v s) = models s"
  by (simp add: debouncedSave_def clearTimeout_def Let_def split: option.splits)

lemma setValue_live [simp]: "live_models (setValue e v s) = live_models s"
proof -
  have "models (setValue e v s) = models (write_value e v s) \<or> setValue e v s = s"
    by (simp add: setValue_def onContentChange_def Let_def split: option.splits)
  then show ?thesis using live_models_cong [of "setValue e v s" "write_value e v s"] by auto
qed

lemma setValue_modelRef [simp]: "modelRef (setValue e v s) = modelRef s"
  by (simp add: setValue_def onContentChange_def debouncedSave_def clearTimeout_def
      write_value_def upd_editor_def upd_model_def Let_def
      split: option.splits attachment.splits)

subsection \<open>The points of the loading effect\<close>

lemma load_points_last: "last (load_points env cf s) = state_of (load_effect env cf s)"
  by (simp add: load_effect_def load_points_def load_try_def load_finish_def Let_def
      andThen_def safeDispose_eq lib_createModel_def lib_setModel_def lib_focus_def
      dispose_points_def create_points_def attach_points_def finish_points_def load_catch_def
      del: release.simps split: option.splits)

lemma upd_editor_models [simp]: "models (upd_editor e g s) = models s"
  by (simp add: upd_editor_def)

lemma upd_editor_modelRef [simp]: "modelRef (upd_editor e g s) = modelRef s"
  by (simp add: upd_editor_def)

lemma finish_points_frame:
  "pt \<in> set (finish_points env lang s) \<Longrightarrow> models pt = models s \<and> modelRef pt = modelRef s"
  by (auto simp: finish_points_def lib_focus_def load_catch_def Let_def split: option.splits)

lemma attach_points_frame:
  "pt \<in> set (attach_points env e m lang s) \<Longrightarrow> models pt = models s \<and> modelRef pt = modelRef s"
  by (auto simp: attach_points_def lib_setModel_def split: option.splits
      dest: finish_points_frame)

lemma attach_points_nonempty: "attach_points env e m lang s \<noteq> []"
  by (simp add: attach_points_def split: outcome.splits)

lemma create_points_nonempty: "create_points env f e lang s \<noteq> []"
  by (simp add: create_points_def split: outcome.splits)

lemma create_points_live:
  assumes none: "set (live_models s) = {}" and pt: "pt \<in> set (create_points env f e lang s)"
  shows "length (live_models pt) \<le> 1 \<and>
         (length (models s) < length (models pt) \<longrightarrow> set (live_models pt) = {length (models s)}) \<and>
         (modelRef s = None \<longrightarrow> models_tracked pt \<or> modelRef pt = None)"
proof (cases "createModel_error env")
  case (Some msg)
  then have "pt = load_catch msg s" using pt by (simp add: create_points_def lib_createModel_def)
  then have "models pt = models s" "modelRef pt = modelRef s" by (simp_all add: load_catch_def)
  then show ?thesis using none live_models_cong [of pt s] by (simp add: models_tracked_def)
next
  case None
  define s1 where "s1 = state_of (lib_createModel env (content_or_empty f) lang s)"
  define m where "m = length (models s)"
  have c: "lib_createModel env (content_or_empty f) lang s = Normal s1"
    using None by (simp add: s1_def lib_createModel_def)
  have live1: "set (live_models s1) = {m}"
    using createModel_live [OF None, of "content_or_empty f" lang s] none by (simp add: s1_def m_def)
  have len1: "length (models s) < length (models s1)" "modelRef s1 = modelRef s"
    using None by (simp_all add: s1_def lib_createModel_def)
  have cases: "pt = s1 \<or> (models pt = models s1 \<and> modelRef pt = Some m)"
    using pt attach_points_frame [of pt env e m lang "s1\<lparr>modelRef := Some m\<rparr>"]
    by (auto simp: create_points_def c m_def)
  have lm: "live_models pt = live_models s1" using cases by (auto intro: live_models_cong)
  have "length (live_models pt) \<le> 1" using at_most_one [of pt m] live1 lm by simp
  moreover have "set (live_models pt) = {length (models s)}" using live1 lm by (simp add: m_def)
  moreover have "modelRef s = None \<longrightarrow> models_tracked pt \<or> modelRef pt = None"
    using cases len1 live1 lm by (auto simp: models_tracked_def)
  ultimately show ?thesis by simp
qed

lemma create_points_last:
  assumes none: "set (live_models s) = {}"
  shows "models_tracked (last (create_points env f e lang s))"
proof (cases "createModel_error env")
  case (Some msg)
  then have "last (create_points env f e lang s) = load_catch msg s"
    by (simp add: create_points_def lib_createModel_def)
  moreover have "live_models (load_catch msg s) = live_models s"
    by (rule live_models_cong) (simp add: load_catch_def)
  ultimately show ?thesis using none by (simp add: models_tracked_def)
next
  case None
  define s1 where "s1 = state_of (lib_createModel env (content_or_empty f) lang s)"
  define m where "m = length (models s)"
  have c: "lib_createModel env (content_or_empty f) lang s = Normal s1"
    using None by (simp add: s1_def lib_createModel_def)
  have live1: "set (live_models s1) = {m}"
    using createModel_live [OF None, of "content_or_empty f" lang s] none by (simp add: s1_def m_def)
  let ?l = "last (create_points env f e lang s)"
  have "?l = last (attach_points env e m lang (s1\<lparr>modelRef := Some m\<rparr>))"
    by (simp add: create_points_def c m_def attach_points_nonempty)
  then have "?l \<in> set (attach_points env e m lang (s1\<lparr>modelRef := Some m\<rparr>))"
    using attach_points_nonempty by simp
  then have fr: "models ?l = models s1" "modelRef ?l = Some m"
    using attach_points_frame [of ?l env e m lang "s1\<lparr>modelRef := Some m\<rparr>"] by simp_all
  have "live_models ?l = live_models s1" using fr(1) by (rule live_models_cong)
  then show ?thesis using live1 fr(2) by (simp add: models_tracked_def)
qed

lemma dispose_points_live:
  assumes tr: "models_tracked s" and pt: "pt \<in> set (dispose_points env s)"
  shows "length (live_models pt) \<le> 1 \<and> length (models pt) = length (models s)"
proof (cases "modelRef s")
  case None
  then show ?thesis using pt tracked_at_most_one [OF tr] by (simp add: dispose_points_def)
next
  case (Some m0)
  let ?r = "release (ModelRes m0) s"
  have sub: "set (live_models s) \<subseteq> {m0}" using tr Some by (auto simp: models_tracked_def)
  have e: "set (live_models ?r) = {}" using sub release_model_live [of m0 s] by auto
  have len: "length (models ?r) = length (models s)" by (simp add: upd_model_def Let_def)
  have e2: "live_models (?r\<lparr>modelRef := None\<rparr>) = live_models ?r"
    by (rule live_models_cong) simp
  have "pt = s \<or> pt = ?r \<or> pt = ?r\<lparr>modelRef := None\<rparr>"
    using pt Some by (simp add: dispose_points_def safeDispose_eq del: release.simps)
  then show ?thesis
    using tracked_at_most_one [OF tr] e e2 len by (auto simp del: release.simps)
qed

lemma dispose_points_last:
  assumes tr: "models_tracked s"
  shows "set (live_models (last (dispose_points env s))) = {} \<and>
         modelRef (last (dispose_points env s)) = None \<and>
         length (models (last (dispose_points env s))) = length (models s) \<and>
         editorRef (last (dispose_points env s)) = editorRef s"
proof (cases "modelRef s")
  case None
  then show ?thesis using tr by (auto simp: dispose_points_def models_tracked_def)
next
  case (Some m0)
  let ?r = "release (ModelRes m0) s"
  have sub: "set (live_models s) \<subseteq> {m0}" using tr Some by (auto simp: models_tracked_def)
  have e: "set (live_models ?r) = {}" using sub release_model_live [of m0 s] by auto
  have len: "length (models ?r) = length (models s)" by (simp add: upd_model_def Let_def)
  have e2: "live_models (?r\<lparr>modelRef := None\<rparr>) = live_models ?r"
    by (rule live_models_cong) simp
  show ?thesis using Some e e2 len
    by (simp add: dispose_points_def safeDispose_eq del: release.simps)
qed

lemma load_points_live:
  assumes tr: "models_tracked s"
  shows "(\<forall>pt \<in> set (load_points env cf s).
            length (live_models pt) \<le> 1 \<and>
            (length (models s) < length (models pt) \<longrightarrow>
               set (live_models pt) = {length (models s)})) \<and>
         models_tracked (state_of (load_effect env cf s))"
proof (cases "editorRef s")
  case None
  then show ?thesis using tr tracked_at_most_one [OF tr]
    by (simp add: load_points_def load_effect_def)
next
  case (Some e)
  show ?thesis
  proof (cases cf)
    case None
    have "length (models (setValue e [] s)) = length (models s)"
      by (simp add: setValue_def onContentChange_def write_value_def upd_model_def Let_def
          split: option.splits attachment.splits)
    moreover have "models_tracked ((setValue e [] s)\<lparr>language := JStr ''javascript''\<rparr>)"
      using tr live_models_cong [of "(setValue e [] s)\<lparr>language := JStr ''javascript''\<rparr>" "setValue e [] s"]
      by (simp add: models_tracked_def)
    moreover have "live_models ((setValue e [] s)\<lparr>language := JStr ''javascript''\<rparr>) = live_models s"
      using live_models_cong [of "(setValue e [] s)\<lparr>language := JStr ''javascript''\<rparr>" "setValue e [] s"]
      by simp
    ultimately show ?thesis using Some None tracked_at_most_one [OF tr]
      by (simp add: load_points_def load_effect_def)
  next
    case (Some f)
    note f = this
    show ?thesis
    proof (cases "isDisposedRef s")
      case True
      then show ?thesis using \<open>editorRef s = Some e\<close> f tr tracked_at_most_one [OF tr]
        by (simp add: load_points_def load_effect_def)
    next
      case False
      let ?s1 = "s\<lparr>isLoading := True\<rparr>"
      let ?d = "dispose_points env ?s1"
      let ?c = "create_points env f e (getLanguageFromExtension (f_name f)) (last ?d)"
      have tr1: "models_tracked ?s1"
        using tr live_models_cong [of ?s1 s] by (simp add: models_tracked_def)
      have pts: "load_points env cf s = s # ?d @ ?c"
        using \<open>editorRef s = Some e\<close> f False by (simp add: load_points_def)
      have d: "\<And>pt. pt \<in> set ?d \<Longrightarrow>
          length (live_models pt) \<le> 1 \<and> length (models pt) = length (models s)"
        using dispose_points_live [OF tr1] by simp
      have dl: "set (live_models (last ?d)) = {}" "length (models (last ?d)) = length (models s)"
        using dispose_points_last [OF tr1, of env] by simp_all
      have c: "\<And>pt. pt \<in> set ?c \<Longrightarrow>
          length (live_models pt) \<le> 1 \<and>
          (length (models s) < length (models pt) \<longrightarrow> set (live_models pt) = {length (models s)})"
        using create_points_live [OF dl(1)] dl(2) by simp
      have "last (load_points env cf s) = last ?c"
        by (simp add: pts create_points_nonempty)
      then have fin: "models_tracked (state_of (load_effect env cf s))"
        using create_points_last [OF dl(1), of env f e] by (simp add: load_points_last)
      show ?thesis
        unfolding pts using d c fin tracked_at_most_one [OF tr] by auto
    qed
  qed
qed

lemma load_seq_points_live:
  "models_tracked s \<Longrightarrow> \<forall>pt \<in> set (load_seq_points loads s). length (live_models pt) \<le> 1"
proof (induction loads arbitrary: s)
  case Nil
  then show ?case using tracked_at_most_one [of s] by simp
next
  case (Cons a loads)
  obtain env cf where a: "a = (env, cf)" by (cases a)
  have 1: "\<forall>pt \<in> set (load_points env cf s). length (live_models pt) \<le> 1"
    and 2: "models_tracked (state_of (load_effect env cf s))"
    using load_points_live [OF Cons.prems, of env cf] by simp_all
  show ?case using 1 Cons.IH [OF 2] by (auto simp: a)
qed

subsection \<open>A rejected persist call\<close>




lemma js_startsWith_append: "js_startsWith (p @ s) p"
  by (induction p) simp_all


subsection \<open>The example states\<close>

lemma mounted_f1_eval:
  "mounted (state_of (mount quiet_env props_f1))"
  "editorRef (state_of (mount quiet_env props_f1)) = Some 0"
  "editable 0 (state_of (mount quiet_env props_f1))"
  "ed_listener (editors (state_of (mount quiet_env props_f1)) ! 0) = Some props_f1"
  "tracked (state_of (mount quiet_env props_f1))"
  "clock (state_of (mount quiet_env props_f1)) = 0"
  "persistCalls (state_of (mount quiet_env props_f1)) = []"
  "models_tracked (state_of (mount quiet_env props_f1))"
  by (simp_all add: lang_defs lib_defs callback_defs effect_defs driver_defs example_defs
      editable_def tracked_def models_tracked_def live_models_def Let_def)

lemma edited_host_run:
  "edited_host = state_of (run [(quiet_env, Edit ''ab'')] (state_of (mount quiet_env props_f1)))"
  by (simp add: edited_host_def andThen_returns mount_returns)

lemma edited_host_reachable: "reachable edited_host"
  unfolding edited_host_run by (intro reachable_run_state reachable_mount_state)

lemma edited_host_eval:
  "editorRef edited_host = Some 0" "getValue 0 edited_host = ''ab''"
  "buffer edited_host = ''ab''"
  "hasUnsavedChanges edited_host" "errorChannel edited_host = []"
  "timers edited_host = [\<lparr>t_id = 1, t_due = 2000, t_content = ''ab'', t_closure = props_f1\<rparr>]"
  "persistCalls edited_host = []" "clock edited_host = 0" "mounted edited_host"
  by (simp_all add: edited_host_def buffer_def lang_defs lib_defs callback_defs effect_defs
      driver_defs example_defs Let_def)

subsection \<open>Language detection\<close>

lemma split_dot_no_dot: "CHR ''.'' \<notin> set e \<Longrightarrow> split_dot e = [e]"
  by (induction e) auto

lemma split_dot_append:
  "split_dot (b @ CHR ''.'' # e) = split_dot b @ split_dot e"
proof (induction b)
  case Nil
  show ?case by simp
next
  case (Cons c b)
  have ne: "split_dot b \<noteq> []" by (induction b) (auto split: list.splits)
  show ?case using Cons ne by (cases "split_dot b") (auto split: list.splits)
qed

lemma pop_split_dot:
  "CHR ''.'' \<notin> set e \<Longrightarrow> pop (split_dot (b @ CHR ''.'' # e)) = Some e"
  by (simp add: split_dot_append split_dot_no_dot pop_def)

lemma extension_of_name:
  "CHR ''.'' \<notin> set e \<Longrightarrow> extension_of (Some (b @ CHR ''.'' # e)) = Some (toLowerCase e)"
  by (simp add: extension_of_def pop_split_dot)

lemma languageMap_values: "map_of languageMap k = Some l \<Longrightarrow> l \<noteq> []"
  by (auto simp: languageMap_def split: if_splits)

lemma toolbarLanguageMap_values: "map_of toolbarLanguageMap k = Some l \<Longrightarrow> l \<noteq> []"
  by (auto simp: toolbarLanguageMap_def split: if_splits)

lemma js_or_own: "l \<noteq> [] \<Longrightarrow> js_or (Some (JStr l)) d = JStr l"
  by (cases l) (simp_all add: js_or_def)

lemma editor_language_supported:
  assumes "map_of languageMap (toLowerCase e) = Some l" and "CHR ''.'' \<notin> set e"
  shows "getLanguageFromExtension (Some (b @ CHR ''.'' # e)) = JStr l"
  using assms languageMap_values [OF assms(1)]
  by (simp add: getLanguageFromExtension_def extension_of_name property_key_def js_get_def
      js_or_own)

lemma editor_language_unknown:
  assumes "map_of languageMap (toLowerCase e) = None" and "CHR ''.'' \<notin> set e"
    and "toLowerCase e \<notin> set object_prototype_keys"
  shows "getLanguageFromExtension (Some (b @ CHR ''.'' # e)) = JStr ''plaintext''"
  using assms
  by (simp add: getLanguageFromExtension_def extension_of_name property_key_def js_get_def
      js_or_def)

lemma editor_language_inherited:
  assumes "CHR ''.'' \<notin> set e" and "toLowerCase e \<in> set object_prototype_keys"
  shows "getLanguageFromExtension (Some (b @ CHR ''.'' # e)) = JInherited (toLowerCase e)"
proof -
  have "map_of languageMap (toLowerCase e) = None"
    using assms(2) by (auto simp: languageMap_def object_prototype_keys_def)
  then show ?thesis using assms
    by (simp add: getLanguageFromExtension_def extension_of_name property_key_def js_get_def
        js_or_def)
qed

lemma toolbar_language_no_name:
  "getLanguageFromFile None = JStr ''javascript''"
  "getLanguageFromFile (Some \<lparr>tf_name = None\<rparr>) = JStr ''javascript''"
  "getLanguageFromFile (Some \<lparr>tf_name = Some []\<rparr>) = JStr ''javascript''"
  by (simp_all add: getLanguageFromFile_def)

lemma toolbar_language_supported:
  assumes "map_of toolbarLanguageMap (toLowerCase e) = Some l" and "CHR ''.'' \<notin> set e"
  shows "getLanguageFromFile (Some \<lparr>tf_name = Some (b @ CHR ''.'' # e)\<rparr>) = JStr l"
  using assms toolbarLanguageMap_values [OF assms(1)]
  by (simp add: getLanguageFromFile_def extension_of_name property_key_def js_get_def js_or_own)

lemma toolbar_language_unknown:
  assumes "map_of toolbarLanguageMap (toLowerCase e) = None" and "CHR ''.'' \<notin> set e"
    and "toLowerCase e \<notin> set object_prototype_keys"
  shows "getLanguageFromFile (Some \<lparr>tf_name = Some (b @ CHR ''.'' # e)\<rparr>) = JStr ''javascript''"
  using assms
  by (simp add: getLanguageFromFile_def extension_of_name property_key_def js_get_def js_or_def)

lemma mount_language:
  assumes "createModel_error env = None" and "setModel_error env = None"
    and "p_currentFile p = Some f"
  shows "language (state_of (mount env p)) = getLanguageFromExtension (f_name f)"
  using assms
  by (simp add: mount_def initial_host_def init_effect_def load_effect_def load_try_def
      load_finish_def lib_focus_def lib_setModel_def lib_createModel_def safeDispose_eq
      andThen_def Let_def theme_effect_def fontSize_effect_def upd_editor_def load_catch_def
      split: option.splits)

lemma load_null_on_live_editor:
  assumes "editorRef s = Some e" and "editable e s"
  shows "is_Normal (load_effect env None s) \<and>
         language (state_of (load_effect env None s)) = JStr ''javascript'' \<and>
         getValue e (state_of (load_effect env None s)) = []"
proof -
  have hm: "has_model e s" using assms(2) by (simp add: editable_def)
  have "getValue e (setValue e [] s) = getValue e (write_value e [] s)"
    by (rule getValue_cong)
       (simp_all add: setValue_def onContentChange_def debouncedSave_def clearTimeout_def
          Let_def hm split: option.splits)
  then have "getValue e (setValue e [] s) = []" using assms(2) by (simp add: getValue_write_value)
  moreover have "getValue e ((setValue e [] s)\<lparr>language := JStr ''javascript''\<rparr>)
      = getValue e (setValue e [] s)"
    by (rule getValue_cong) simp_all
  ultimately show ?thesis using assms(1) by (simp add: load_effect_def)
qed

lemma toLowerCase_char_not_upper: "toLowerCase_char c \<notin> set upper_letters"
  by (simp add: toLowerCase_char_def upper_letters_def lower_letters_def)

lemma toLowerCase_no_upper: "c \<in> set upper_letters \<Longrightarrow> c \<notin> set (toLowerCase e)"
  using toLowerCase_char_not_upper by (auto simp: toLowerCase_def)

lemma lowered_inherited_keys:
  assumes "toLowerCase e \<in> set object_prototype_keys"
  shows "toLowerCase e = ''constructor'' \<or> toLowerCase e = ''__proto__''"
proof -
  have "CHR ''O'' \<notin> set (toLowerCase e)" "CHR ''P'' \<notin> set (toLowerCase e)"
    "CHR ''I'' \<notin> set (toLowerCase e)" "CHR ''L'' \<notin> set (toLowerCase e)"
    "CHR ''S'' \<notin> set (toLowerCase e)" "CHR ''G'' \<notin> set (toLowerCase e)"
    by (rule toLowerCase_no_upper, simp add: upper_letters_def)+
  then show ?thesis using assms by (auto simp: object_prototype_keys_def)
qed

subsection \<open>Reachable states track their model\<close>

lemma same_core_models_tracked: "same_core s s' \<Longrightarrow> models_tracked s \<Longrightarrow> models_tracked s'"
  using live_models_cong [of s' s] by (simp add: same_core_def models_tracked_def)

lemma init_cleanup_state_models_tracked:
  "models_tracked s \<Longrightarrow> models_tracked (init_cleanup_state e s)"
proof -
  have "models (init_cleanup_state e s) = models s" "modelRef (init_cleanup_state e s) = modelRef s"
    by (simp_all add: init_cleanup_state_def upd_editor_def)
  then show "models_tracked s \<Longrightarrow> models_tracked (init_cleanup_state e s)"
    using live_models_cong [of "init_cleanup_state e s" s] by (simp add: models_tracked_def)
qed

lemma unmount_cleanup_state_models_tracked:
  assumes "models_tracked s"
  shows "models_tracked (unmount_cleanup_state s)"
proof (cases "modelRef s")
  case None
  then have "models (unmount_cleanup_state s) = models s"
    by (simp add: unmount_cleanup_state_def)
  then have "live_models (unmount_cleanup_state s) = live_models s" by (rule live_models_cong)
  then show ?thesis using assms None by (auto simp: models_tracked_def)
next
  case (Some m)
  have "models (unmount_cleanup_state s) = models (release (ModelRes m) s)"
    using Some by (simp add: unmount_cleanup_state_def upd_model_def Let_def)
  then have "live_models (unmount_cleanup_state s) = live_models (release (ModelRes m) s)"
    by (rule live_models_cong)
  moreover have "set (live_models s) \<subseteq> {m}" using assms Some by (auto simp: models_tracked_def)
  ultimately have "set (live_models (unmount_cleanup_state s)) = {}"
    using release_model_live [of m s] by auto
  then show ?thesis by (simp add: models_tracked_def)
qed

lemma mount_models_tracked: "models_tracked (state_of (mount env p))"
proof -
  let ?s0 = "init_effect p ((initial_host p)\<lparr>mounted := True, containerRef := True\<rparr>)"
  have m0: "models ?s0 = []" "modelRef ?s0 = None"
    by (simp_all add: init_effect_def initial_host_def Let_def)
  then have "models_tracked ?s0" by (simp add: models_tracked_def live_models_def)
  then have "models_tracked (state_of (load_effect env (p_currentFile p) ?s0))"
    using load_points_live [of ?s0 env "p_currentFile p"] by simp
  moreover have "is_Normal (load_effect env (p_currentFile p) ?s0)"
    by (simp add: load_effect_def load_try_def load_finish_def lib_focus_def lib_setModel_def
        lib_createModel_def safeDispose_eq andThen_def Let_def del: release.simps
        split: option.splits)
  moreover have "\<And>s. models (fontSize_effect p (theme_effect p s)) = models s \<and>
      modelRef (fontSize_effect p (theme_effect p s)) = modelRef s"
    by (simp add: fontSize_effect_def theme_effect_def split: option.splits)
  ultimately show ?thesis
    using live_models_cong [of "fontSize_effect p (theme_effect p (state_of (load_effect env (p_currentFile p) ?s0)))"
        "state_of (load_effect env (p_currentFile p) ?s0)"]
    by (simp add: mount_def Let_def andThen_returns models_tracked_def)
qed

lemma step_models_tracked:
  assumes inv: "host_inv s" and tr: "models_tracked s"
  shows "models_tracked (state_of (step env ev s))"
proof (cases "mounted s")
  case False
  then show ?thesis using tr by (simp add: step_def)
next
  case True
  show ?thesis
  proof (cases ev)
    case (Update q)
    show ?thesis
    proof (cases "init_deps_changed (props s) q")
      case False
      have "live_models (s\<lparr>props := q\<rparr>) = live_models s" by (rule live_models_cong) simp
      then show ?thesis using True Update False tr
        by (simp add: step_def update_unchanged models_tracked_def)
    next
      case ch: True
      let ?s1 = "case initCleanup s of None \<Rightarrow> s | Some e \<Rightarrow> init_cleanup_state e s"
      have "models_tracked ?s1"
        using tr init_cleanup_state_models_tracked by (simp split: option.splits)
      moreover have "live_models (?s1\<lparr>props := q, initCleanup := None\<rparr>) = live_models ?s1"
        by (rule live_models_cong) simp
      ultimately have "models_tracked (?s1\<lparr>props := q, initCleanup := None\<rparr>)"
        by (simp add: models_tracked_def)
      then show ?thesis
        using update_changed [OF ch inv_no_cleanup [OF inv], of env] inv True Update
        by (simp add: step_def host_inv_def)
    qed
  next
    case (Edit c)
    then show ?thesis using True tr
      by (simp add: step_def user_edit_def models_tracked_def split: option.splits)
  next
    case PressSave
    then show ?thesis using True tr same_core_models_tracked [OF press_save_core]
      by (simp add: step_def)
  next
    case (Advance t)
    have "models_tracked (s\<lparr>clock := max (clock s) t,
        timers := filter (\<lambda>x. \<not> t_due x \<le> max (clock s) t) (timers s)\<rparr>)"
      using tr live_models_cong [of "s\<lparr>clock := max (clock s) t,
        timers := filter (\<lambda>x. \<not> t_due x \<le> max (clock s) t) (timers s)\<rparr>" s]
      by (simp add: models_tracked_def)
    then have "models_tracked (state_of (advance env t s))"
      unfolding advance_def Let_def
      by (intro same_core_models_tracked [OF run_timeouts_core]) simp
    then show ?thesis using True Advance by (simp add: step_def)
  next
    case Unmount
    have "models_tracked (teardown_state s)"
      unfolding teardown_state_def
      using tr init_cleanup_state_models_tracked
      by (intro unmount_cleanup_state_models_tracked) (simp split: option.splits)
    moreover have "live_models ((teardown_state s)\<lparr>mounted := False\<rparr>) = live_models (teardown_state s)"
      by (rule live_models_cong) simp
    ultimately show ?thesis using True Unmount
      by (simp add: step_def unmount_def teardown_eq andThen_def models_tracked_def)
  qed
qed

lemma reachable_models_tracked: "reachable s \<Longrightarrow> models_tracked s"
proof (induction rule: reachable.induct)
  case (reachable_mount env p s)
  then show ?case using mount_models_tracked [of env p] by simp
next
  case (reachable_step s env ev s')
  then show ?case using step_models_tracked [OF reachable_inv, of s env ev] by simp
qed

subsection \<open>After a change of the theme\<close>

lemma restyled_host_eval:
  "editorRef restyled_host = None" "isDisposedRef restyled_host"
  "timers restyled_host = []" "persistCalls restyled_host = []"
  "hasUnsavedChanges restyled_host" "map ed_disposed (editors restyled_host) = [True]"
  by (simp_all add: restyled_host_def lang_defs lib_defs callback_defs effect_defs driver_defs
      example_defs Let_def)

lemma restyled_host_reachable: "reachable restyled_host"
proof -
  have "restyled_host = state_of (run [(quiet_env, Edit ''ab''),
      (quiet_env, Update (props_f1\<lparr>p_theme := ''light''\<rparr>))] (state_of (mount quiet_env props_f1)))"
    by (simp add: restyled_host_def andThen_returns mount_returns)
  then show ?thesis
    using reachable_run_state [OF reachable_mount_state, of "[(quiet_env, Edit ''ab''),
      (quiet_env, Update (props_f1\<lparr>p_theme := ''light''\<rparr>))]" quiet_env props_f1]
    by (simp only:)
qed

lemma restyled_host_never_persists:
  "is_Normal (run evs restyled_host) \<and> persistCalls (state_of (run evs restyled_host)) = []"
  using run_disposed [OF reachable_inv [OF restyled_host_reachable] restyled_host_eval(2), of evs]
  by (simp add: restyled_host_eval)

section \<open>Claims that the code meets\<close>

text \<open>
  C2. Two content changes within one debounce window, with \<open>autoSave\<close> on, lead to
  exactly one persist call; it carries the content of the second change and is made no
  earlier than the delay after the second change. Here the editor \<open>e\<close> is alive and
  takes content, its listener comes from a render \<open>cl\<close> with \<open>autoSave\<close> on and file
  \<open>f\<close>, and every pending timeout is the one the component holds. The first change
  happens at the time of the state \<open>s\<close>, the second at \<open>t2\<close>, before the first
  timeout is due; then time passes to \<open>t3\<close>. Up to \<open>t3\<close> the persist calls are those
  made before plus, once \<open>t3\<close> has reached \<open>t2\<close> plus the delay, the single call
  \<open>(t3, id of f, c2)\<close>. The witness is the scenario of the specification: delay 2000,
  changes to \<open>ab\<close> at 0 and to \<open>abc\<close> at 500; one call \<open>(f1, abc)\<close> at 2500, none
  at 2000.
\<close>

theorem debounce_last_write_wins:
  assumes m: "mounted s" and ref: "editorRef s = Some e" and ed: "editable e s"
    and li: "ed_listener (editors s ! e) = Some cl" and au: "p_autoSave cl"
    and fi: "p_currentFile cl = Some f" and tr: "tracked s"
    and t1: "clock s \<le> t2" and t2: "t2 < clock s + p_autoSaveDelay cl"
  shows "is_Normal (run [(env1, Edit c1), (env2, Advance t2), (env3, Edit c2), (env4, Advance t3)] s) \<and>
         persistCalls (state_of
            (run [(env1, Edit c1), (env2, Advance t2), (env3, Edit c2), (env4, Advance t3)] s))
           = persistCalls s @
               (if t2 + p_autoSaveDelay cl \<le> t3 then [(t3, f_id f, c2)] else [])"
proof -
  let ?d = "p_autoSaveDelay cl"
  let ?t1 = "\<lparr>t_id = nextTimerId s, t_due = clock s + ?d, t_content = c1, t_closure = cl\<rparr>"
  define s1 where "s1 = user_edit c1 s"
  have s1: "s1 = (write_value e c1 s)\<lparr>hasUnsavedChanges := True, timers := [?t1],
        nextTimerId := Suc (nextTimerId s), saveTimeoutRef := Some (nextTimerId s)\<rparr>"
    unfolding s1_def by (rule user_edit_autosave [OF ref ed li au tr])
  have f1: "mounted s1" "clock s1 = clock s" "timers s1 = [?t1]" "persistCalls s1 = persistCalls s"
    "editorRef s1 = Some e" "ed_listener (editors s1 ! e) = Some cl"
    using m ref li by (simp_all add: s1)
  have "editable e s1 = editable e (write_value e c1 s)"
    by (rule editable_cong) (simp_all add: s1)
  then have e1: "editable e s1" using editable_write_value [OF ed, of c1] by simp
  have tr1: "tracked s1" using tr by (simp add: s1 tracked_def)
  define s2 where "s2 = s1\<lparr>clock := t2\<rparr>"
  have a2: "advance env2 t2 s1 = Normal s2"
    using t1 t2 f1 by (simp add: advance_single [OF f1(3)] s2_def max_def)
  have f2: "mounted s2" "clock s2 = t2" "persistCalls s2 = persistCalls s"
    "editorRef s2 = Some e" "ed_listener (editors s2 ! e) = Some cl"
    using f1 by (simp_all add: s2_def)
  have "editable e s2 = editable e s1"
    by (rule editable_cong) (simp_all add: s2_def)
  then have e2: "editable e s2" using e1 by simp
  have tr2: "tracked s2" using tr1 by (simp add: s2_def tracked_def)
  let ?t2 = "\<lparr>t_id = nextTimerId s2, t_due = t2 + ?d, t_content = c2, t_closure = cl\<rparr>"
  define s3 where "s3 = user_edit c2 s2"
  have s3: "s3 = (write_value e c2 s2)\<lparr>hasUnsavedChanges := True, timers := [?t2],
        nextTimerId := Suc (nextTimerId s2), saveTimeoutRef := Some (nextTimerId s2)\<rparr>"
    unfolding s3_def using user_edit_autosave [OF f2(4) e2 f2(5) au tr2, of c2] f2(2) by simp
  have f3: "mounted s3" "clock s3 = t2" "timers s3 = [?t2]" "persistCalls s3 = persistCalls s"
    using f2 by (simp_all add: s3)
  have run: "run [(env1, Edit c1), (env2, Advance t2), (env3, Edit c2), (env4, Advance t3)] s
      = advance env4 t3 s3"
    using m f1(1) f2(1) f3(1) a2
    by (simp add: step_def andThen_def s1_def [symmetric] s3_def [symmetric]
        split: outcome.splits)
  have pos: "0 < ?d" using t1 t2 by simp
  show ?thesis
  proof (cases "t2 + ?d \<le> t3")
    case True
    then have mx: "max t2 t3 = t3" using pos by simp
    have "advance env4 t3 s3
        = detached (timeout_body env4 ?t2 (s3\<lparr>clock := t3, timers := []\<rparr>))"
      using True by (simp add: advance_single [OF f3(3)] f3(2) mx)
    then show ?thesis
      unfolding run
      using True fi au f3(4) timeout_body_calls [of ?t2 f env4 "s3\<lparr>clock := t3, timers := []\<rparr>"]
      by (simp add: detached_returns)
  next
    case False
    then have "\<not> t2 + ?d \<le> max t2 t3" using pos by (simp add: max_def)
    then have "advance env4 t3 s3 = Normal (s3\<lparr>clock := max t2 t3\<rparr>)"
      by (simp add: advance_single [OF f3(3)] f3(2))
    then show ?thesis unfolding run using False f3(4) by simp
  qed
qed

theorem debounce_last_write_wins_witness:
  "persistCalls (state_of (run [(quiet_env, Edit ''ab''), (quiet_env, Advance 500),
        (quiet_env, Edit ''abc''), (quiet_env, Advance 2500)]
        (state_of (mount quiet_env props_f1)))) = [(2500, ''f1'', ''abc'')] \<and>
   persistCalls (state_of (run [(quiet_env, Edit ''ab''), (quiet_env, Advance 500),
        (quiet_env, Edit ''abc''), (quiet_env, Advance 2000)]
        (state_of (mount quiet_env props_f1)))) = []"
proof -
  have cl: "p_autoSave props_f1" "p_currentFile props_f1 = Some file_f1"
    "p_autoSaveDelay props_f1 = 2000" "f_id file_f1 = ''f1''"
    by (simp_all add: props_f1_def file_f1_def)
  have t: "clock (state_of (mount quiet_env props_f1)) \<le> 500"
    "500 < clock (state_of (mount quiet_env props_f1)) + p_autoSaveDelay props_f1"
    by (simp_all add: mounted_f1_eval cl)
  note inst = debounce_last_write_wins [OF mounted_f1_eval(1-4) cl(1,2) mounted_f1_eval(5) t,
      of quiet_env "''ab''" quiet_env quiet_env "''abc''" quiet_env]
  show ?thesis using inst [of 2500] inst [of 2000] by (simp add: cl mounted_f1_eval)
qed

text \<open>
  C5. Teardown (the cleanup of the creating effect followed by the cleanup of the last
  effect) returns in every state and for every behaviour of the library, leaves the host
  disposed with no editor and no model referenced, and calling it again any number of
  times returns and changes nothing. In every state the component can reach, teardown
  also leaves no pending timeout, and after any further events the host is still disposed
  with no pending timeout. Releasing a resource with \<open>safeDispose\<close>, be it an editor,
  a model, a listener or no resource at all, returns whatever \<open>dispose\<close> throws, and
  releasing it again any number of times returns and changes nothing.
\<close>

theorem teardown_idempotent:
  "is_Normal (teardown env s) \<and>
   isDisposedRef (state_of (teardown env s)) \<and>
   editorRef (state_of (teardown env s)) = None \<and>
   modelRef (state_of (teardown env s)) = None \<and>
   repeatedly teardown envs (state_of (teardown env s)) = Normal (state_of (teardown env s)) \<and>
   (reachable s \<longrightarrow>
      timers (state_of (teardown env s)) = [] \<and>
      is_Normal (run evs (state_of (teardown env s))) \<and>
      isDisposedRef (state_of (run evs (state_of (teardown env s)))) \<and>
      timers (state_of (run evs (state_of (teardown env s)))) = []) \<and>
   is_Normal (safeDispose env r s) \<and>
   repeatedly (\<lambda>env. safeDispose env r) envs (state_of (safeDispose env r s))
     = Normal (state_of (safeDispose env r s))"
proof -
  have "reachable s \<Longrightarrow>
      timers (teardown_state s) = [] \<and> is_Normal (run evs (teardown_state s)) \<and>
      isDisposedRef (state_of (run evs (teardown_state s))) \<and>
      timers (state_of (run evs (teardown_state s))) = []"
  proof -
    assume "reachable s"
    then have "tracked s" using reachable_inv by (simp add: host_inv_def)
    then have d: "dead (teardown_state s)" "tracked (teardown_state s)"
      using teardown_state_dead by simp_all
    then have "host_inv (teardown_state s)" "isDisposedRef (teardown_state s)"
      by (simp_all add: host_inv_def dead_def)
    then show ?thesis using run_disposed [of "teardown_state s" evs] d by (simp add: dead_def)
  qed
  then show ?thesis
    by (simp add: teardown_eq teardown_state_fields repeatedly_teardown safeDispose_returns
        repeatedly_safeDispose)
qed

theorem teardown_idempotent_witness:
  "reachable edited_host \<and> timers edited_host \<noteq> [] \<and>
   is_Normal (teardown throwing_env edited_host) \<and>
   isDisposedRef (state_of (teardown throwing_env edited_host)) \<and>
   timers (state_of (teardown throwing_env edited_host)) = [] \<and>
   repeatedly teardown [quiet_env, throwing_env] (state_of (teardown throwing_env edited_host))
     = Normal (state_of (teardown throwing_env edited_host))"
  using teardown_idempotent [of throwing_env edited_host "[quiet_env, throwing_env]" "[]"
      "Some (EditorRes 0)"] edited_host_reachable
  by (simp add: edited_host_eval)

text \<open>
  C6. At every point of every sequence of runs of the loading effect, started in a state
  where every live model is the one \<open>modelRef\<close> holds (which is so in every state the
  component can reach, lemma \<open>reachable_models_tracked\<close>), at most one model is
  live. Within one run, at every point where the new model exists it is the only live
  model: the previous one was disposed before. The points of a run end in the state in
  which the effect returns.
\<close>

theorem one_live_model_per_session:
  assumes "models_tracked s"
  shows "(\<forall>pt \<in> set (load_seq_points loads s). length (live_models pt) \<le> 1) \<and>
         (\<forall>pt \<in> set (load_points env cf s).
            length (models s) < length (models pt) \<longrightarrow>
              set (live_models pt) = {length (models s)}) \<and>
         last (load_points env cf s) = state_of (load_effect env cf s)"
  using load_seq_points_live [OF assms] load_points_live [OF assms, of env cf]
  by (simp add: load_points_last)

theorem one_live_model_per_session_witness:
  "live_models (state_of (mount quiet_env props_f1)) = [0] \<and>
   modelRef (state_of (mount quiet_env props_f1)) = Some 0 \<and>
   list_all (\<lambda>pt. length (live_models pt) \<le> 1)
     (load_seq_points
        [(quiet_env, Some file_f2), (throwing_env, None), (throwing_env, Some file_f1)]
        (state_of (mount quiet_env props_f1)))"
proof -
  have live: "live_models (state_of (mount quiet_env props_f1)) = [0]"
    "modelRef (state_of (mount quiet_env props_f1)) = Some 0"
    by (simp_all add: lang_defs lib_defs callback_defs effect_defs driver_defs example_defs
        live_models_def Let_def)
  then have tr: "models_tracked (state_of (mount quiet_env props_f1))"
    by (simp add: models_tracked_def)
  show ?thesis
    using one_live_model_per_session [OF tr,
        of "[(quiet_env, Some file_f2), (throwing_env, None), (throwing_env, Some file_f1)]"
           quiet_env None] live
    by (simp add: list_all_iff)
qed

text \<open>
  C9. In a state the component can reach in which a debounced persist for file \<open>f\<close> is
  pending, a manual save returns and makes one persist call at once, for \<open>f\<close> and with
  the content the buffer has; the pending timeout stays, and the content it carries is
  the content of the buffer. After the save and any further events \<open>evs\<close>, every
  persist call that running timeouts make carries the content the buffer has at that
  moment, so a debounced persist never writes content older than the buffer.
\<close>

theorem save_with_pending_autosave:
  assumes r: "reachable s" and t: "t \<in> set (timers s)"
    and f: "p_currentFile (t_closure t) = Some f"
  shows "is_Normal (step env PressSave s) \<and>
         persistCalls (state_of (step env PressSave s))
           = persistCalls s @ [(clock s, f_id f, buffer s)] \<and>
         timers (state_of (step env PressSave s)) = timers s \<and>
         t_content t = buffer s \<and>
         (\<forall>c \<in> set (calls_since (state_of (run evs (state_of (step env PressSave s))))
                     (state_of (step env2 (Advance t2)
                        (state_of (run evs (state_of (step env PressSave s))))))).
            snd (snd c) = buffer (state_of (run evs (state_of (step env PressSave s)))))"
proof -
  have inv: "host_inv s" using r by (rule reachable_inv)
  let ?s1 = "state_of (step env PressSave s)"
  let ?s2 = "state_of (run evs ?s1)"
  have "reachable ?s2" using r by (intro reachable_run_state reachable_step_state)
  then have inv2: "host_inv ?s2" by (rule reachable_inv)
  have last: "\<forall>c \<in> set (calls_since ?s2 (state_of (step env2 (Advance t2) ?s2))).
      snd (snd c) = buffer ?s2"
  proof (cases "mounted ?s2")
    case True
    then show ?thesis using advance_calls_current [OF inv2] by (simp add: step_def)
  next
    case False
    then show ?thesis by (simp add: step_def calls_since_def)
  qed
  show ?thesis
    using press_save_pending [OF inv t f, of env] inv_timer_buffer [OF inv t] last
    by (simp split: option.splits)
qed

theorem save_with_pending_autosave_witness:
  "reachable edited_host \<and>
   \<lparr>t_id = 1, t_due = 2000, t_content = ''ab'', t_closure = props_f1\<rparr> \<in> set (timers edited_host) \<and>
   persistCalls (state_of (step quiet_env PressSave edited_host)) = [(0, ''f1'', ''ab'')] \<and>
   timers (state_of (step quiet_env PressSave edited_host)) = timers edited_host"
proof -
  have t: "\<lparr>t_id = 1, t_due = 2000, t_content = ''ab'', t_closure = props_f1\<rparr> \<in> set (timers edited_host)"
    by (simp add: edited_host_eval)
  have f: "p_currentFile (t_closure \<lparr>t_id = 1, t_due = 2000, t_content = ''ab'', t_closure = props_f1\<rparr>)
      = Some file_f1"
    by (simp add: props_f1_def)
  show ?thesis
    using save_with_pending_autosave [OF edited_host_reachable t f, of quiet_env "[]" quiet_env 0]
      edited_host_reachable t
    by (simp add: edited_host_eval file_f1_def)
qed

section \<open>A claim that the code meets for some rejections\<close>




section \<open>Claims that the code does not meet\<close>

text \<open>
  C1. The claim: a file whose name ends in a supported extension gets the language of the
  table, whatever the letter case of the extension, and a file whose lower-cased
  extension is not in the table gets \<open>plaintext\<close>. The code does not do this. The
  extension \<open>constructor\<close> is not in the table, and the lookup \<open>languageMap[extension]\<close>
  finds the property of that name that every object inherits, which is truthy, so the
  detected language is that inherited value and not \<open>plaintext\<close>; this is what the
  loading effect stores. And a file that becomes current after the component is mounted
  is never loaded: \<open>main.py\<close> leaves the detected language at its initial
  \<open>javascript\<close>. What does hold: for a file present when the component is mounted,
  the detected language is the one the function returns (lemma \<open>mount_language\<close>); the
  function returns the language of the table for an extension that is in it, in any
  letter case (lemma \<open>editor_language_supported\<close>), and \<open>plaintext\<close> for any other
  extension whose lower-cased form is not \<open>constructor\<close> or \<open>__proto__\<close> (lemmas
  \<open>editor_language_unknown\<close> and \<open>lowered_inherited_keys\<close>).
\<close>

theorem detected_language_wrong:
  "getLanguageFromExtension (Some ''notes.constructor'') = JInherited ''constructor'' \<and>
   language (state_of (mount quiet_env
      (props_f1\<lparr>p_currentFile := Some (file_f1\<lparr>f_name := Some ''notes.constructor''\<rparr>)\<rparr>)))
     = JInherited ''constructor'' \<and>
   language (state_of (andThen (mount quiet_env props_no_file)
      (run [(quiet_env, Update props_f1)]))) = JStr ''javascript''"
  by (simp add: lang_defs lib_defs callback_defs effect_defs driver_defs example_defs Let_def)

text \<open>
  C3. The claim: when attaching the new buffer fails, an error reaches the error channel
  and \<open>isLoading\<close> is left false. The code does not do this: the handler around
  \<open>setModel\<close> only logs a warning and returns, so, for a component mounted with file
  \<open>f1\<close> while \<open>setModel\<close> throws, \<open>isLoading\<close> stays true and the error channel
  stays empty. The new model stays referenced by \<open>modelRef\<close>, unattached.
\<close>

theorem setModel_failure_keeps_loading:
  "isLoading (state_of (mount (quiet_env\<lparr>setModel_error := Some ''Editor is disposed''\<rparr>)
      props_f1)) \<and>
   errorChannel (state_of (mount (quiet_env\<lparr>setModel_error := Some ''Editor is disposed''\<rparr>)
      props_f1)) = [] \<and>
   modelRef (state_of (mount (quiet_env\<lparr>setModel_error := Some ''Editor is disposed''\<rparr>)
      props_f1)) = Some 0 \<and>
   map ed_attachment (editors (state_of
      (mount (quiet_env\<lparr>setModel_error := Some ''Editor is disposed''\<rparr>) props_f1)))
     = [OwnBuffer []]"
  by (simp add: lang_defs lib_defs callback_defs effect_defs driver_defs example_defs Let_def)

text \<open>
  C7. The claim: loading no file after loading a file clears the buffer and resets the
  detected language to the default. The code does not do this. When the current file
  changes, \<open>handleSave\<close> and \<open>debouncedSave\<close> are new functions, so the creating effect
  is cleaned up and run again; its cleanup sets \<open>isDisposedRef\<close>, and its guard then
  returns before the line that would reset the flag. The editor is gone when the loading
  effect runs, which therefore does nothing: the detected language is still
  \<open>python\<close>, and the model of the file still holds its content.
\<close>

theorem load_null_keeps_language:
  "language (state_of (andThen (mount quiet_env props_f1)
      (run [(quiet_env, Update props_no_file)]))) = JStr ''python'' \<and>
   editorRef (state_of (andThen (mount quiet_env props_f1)
      (run [(quiet_env, Update props_no_file)]))) = None \<and>
   map tm_value (models (state_of (andThen (mount quiet_env props_f1)
      (run [(quiet_env, Update props_no_file)])))) = [''a'']"
  by (simp add: lang_defs lib_defs callback_defs effect_defs driver_defs example_defs Let_def)

text \<open>
  C8. The claim: a change of only the theme or the font size keeps the unsaved content of
  the buffer. The code does not do this. With file \<open>f1\<close> loaded and the content edited
  to \<open>ab\<close>, a change of the theme runs the cleanup of the creating effect, which
  disposes the editor and cancels the pending save; the effect then returns at its guard,
  so no editor exists any more. The edit is not persisted, also not when Save is pressed
  and time passes; no later history persists anything (lemma
  \<open>restyled_host_never_persists\<close>).
\<close>

theorem theme_change_loses_edit:
  "editorRef restyled_host = None \<and>
   map ed_disposed (editors restyled_host) = [True] \<and>
   timers restyled_host = [] \<and>
   hasUnsavedChanges restyled_host \<and>
   persistCalls (state_of (run [(quiet_env, PressSave), (quiet_env, Advance 10000)]
      restyled_host)) = []"
  by (simp add: restyled_host_def lang_defs lib_defs callback_defs effect_defs driver_defs
      example_defs Let_def)

text \<open>
  C10. The claim: the toolbar's detector returns \<open>javascript\<close> for every file whose
  lower-cased extension is absent from its table. The code does not do this: for the
  file name \<open>notes.constructor\<close> the lookup finds the inherited property, and the
  result is that value, which is not a string. What does hold: the result is
  \<open>javascript\<close> for a null file, a file without a name or with an empty name (lemma
  \<open>toolbar_language_no_name\<close>), and for every extension outside the table whose
  lower-cased form is not \<open>constructor\<close> or \<open>__proto__\<close> (lemma
  \<open>toolbar_language_unknown\<close>); the function never throws.
\<close>

theorem toolbar_language_wrong:
  "getLanguageFromFile (Some \<lparr>tf_name = Some ''notes.constructor''\<rparr>)
     = JInherited ''constructor''"
  by (simp add: lang_defs)

end
